theory Spec2Isabelle
  imports Main
begin

section \<open>Text\<close>

text \<open>
  A Python \<open>str\<close> is modelled as a \<open>string\<close> whose characters are the code points below 256.
  On these code points \<open>\s\<close> and \<open>str.strip\<close> treat as white space the characters
  9 to 13, 28 to 32, 133 and 160; \<open>\d\<close> matches the ASCII digits only; and a regular
  expression compiled with \<open>re.IGNORECASE\<close> matches a keyword letter against its two ASCII
  cases only. \<open>str.upper\<close> is modelled on the ASCII letters; the other code points are left
  alone, which does not change any keyword test below (no code point above 127 has an upper
  case that starts one of the keywords).
\<close>

definition is_space :: "char \<Rightarrow> bool" where
  "is_space c =
     (let n = (of_char c :: nat)
      in (9 \<le> n \<and> n \<le> 13) \<or> (28 \<le> n \<and> n \<le> 32) \<or> n = 133 \<or> n = 160)"

definition is_lower :: "char \<Rightarrow> bool" where
  "is_lower c = (let n = (of_char c :: nat) in 97 \<le> n \<and> n \<le> 122)"

definition is_digit :: "char \<Rightarrow> bool" where
  "is_digit c = (let n = (of_char c :: nat) in 48 \<le> n \<and> n \<le> 57)"

text \<open>An ASCII lower-case letter becomes upper case by clearing bit 5 of its code.\<close>

definition upper_char :: "char \<Rightarrow> char" where
  "upper_char c =
     (if is_lower c
      then (case c of Char b0 b1 b2 b3 b4 b5 b6 b7 \<Rightarrow> Char b0 b1 b2 b3 b4 False b6 b7)
      else c)"

definition upper :: "string \<Rightarrow> string" where
  "upper s = map upper_char s"

definition startswith :: "string \<Rightarrow> string \<Rightarrow> bool" where
  "startswith p s = (take (length p) s = p)"

definition endswith :: "string \<Rightarrow> string \<Rightarrow> bool" where
  "endswith p s = (length p \<le> length s \<and> drop (length s - length p) s = p)"

definition strip :: "string \<Rightarrow> string" where
  "strip s = rev (dropWhile is_space (rev (dropWhile is_space s)))"

text \<open>\<open>int\<close> applied to a non-empty run of ASCII digits.\<close>

definition py_int_digits :: "string \<Rightarrow> nat" where
  "py_int_digits s = foldl (\<lambda>a c. 10 * a + (of_char c - 48)) 0 s"

section \<open>The tokenizer\<close>

text \<open>
  \<open>TOKEN_REGEX\<close> is an alternation of eight shapes, compiled with \<open>re.IGNORECASE\<close>. Each
  function below is one alternative tried at the start of its argument; it returns the matched
  prefix. \<open>.*?/\<close> stops at the first slash and \<open>.\<close> does not match a line feed.
\<close>

definition nonspace_run :: "string \<Rightarrow> string" where
  "nonspace_run s = takeWhile (\<lambda>c. \<not> is_space c) s"

definition match_slashed :: "string \<Rightarrow> string \<Rightarrow> string option" where
  "match_slashed kw s =
     (if startswith kw (upper s) then
        (let body = takeWhile (\<lambda>c. c \<noteq> CHR ''/'' \<and> c \<noteq> CHR 0x0A) (drop (length kw) s) in
         case drop (length kw + length body) s of
           [] \<Rightarrow> None
         | c # _ \<Rightarrow> if c = CHR ''/'' then Some (take (length kw + length body + 1) s) else None)
      else None)"

text \<open>
  \<open>DATE[<>]=?\S+\<close>: the optional \<open>=\<close> is taken first and given back when nothing is left
  for \<open>\S+\<close>.
\<close>

definition match_date :: "string \<Rightarrow> string option" where
  "match_date s =
     (if startswith ''DATE'' (upper s) then
        (case drop 4 s of
           [] \<Rightarrow> None
         | c # r \<Rightarrow>
             if c = CHR ''<'' \<or> c = CHR ''>'' then
               (case r of
                  [] \<Rightarrow> None
                | e # r' \<Rightarrow>
                    if e = CHR ''='' \<and> nonspace_run r' \<noteq> []
                      then Some (take (6 + length (nonspace_run r')) s)
                    else if nonspace_run r \<noteq> []
                      then Some (take (5 + length (nonspace_run r)) s)
                    else None)
             else None)
      else None)"

definition match_word :: "string \<Rightarrow> string \<Rightarrow> string option" where
  "match_word kw s = (if startswith kw (upper s) then Some (take (length kw) s) else None)"

definition match_paren :: "string \<Rightarrow> string option" where
  "match_paren s =
     (case s of
        [] \<Rightarrow> None
      | c # _ \<Rightarrow> if c = CHR ''('' \<or> c = CHR '')'' then Some [c] else None)"

fun first_match :: "(string \<Rightarrow> string option) list \<Rightarrow> string \<Rightarrow> string option" where
  "first_match [] s = None"
| "first_match (m # ms) s = (case m s of Some t \<Rightarrow> Some t | None \<Rightarrow> first_match ms s)"

definition TOKEN_REGEX :: "string \<Rightarrow> string option" where
  "TOKEN_REGEX =
     first_match [match_slashed ''SUBJECT:/'', match_slashed ''FROM:/'', match_slashed ''TO:/'',
       match_slashed ''CC:/'', match_date, match_word ''AND'', match_word ''OR'', match_paren]"

lemma startswith_length: "startswith p s \<Longrightarrow> length p \<le> length s"
  by (metis startswith_def length_take min.cobounded1)

lemma match_slashed_nonempty: "match_slashed kw s = Some t \<Longrightarrow> s \<noteq> [] \<Longrightarrow> t \<noteq> []"
  by (auto simp: match_slashed_def Let_def split: if_splits list.splits)

lemma match_date_nonempty: "match_date s = Some t \<Longrightarrow> s \<noteq> [] \<Longrightarrow> t \<noteq> []"
  by (auto simp: match_date_def Let_def split: if_splits list.splits)

lemma match_word_nonempty: "match_word kw s = Some t \<Longrightarrow> kw \<noteq> [] \<Longrightarrow> t \<noteq> []"
  by (auto simp: match_word_def upper_def split: if_splits dest: startswith_length)

lemma match_paren_nonempty: "match_paren s = Some t \<Longrightarrow> t \<noteq> []"
  by (auto simp: match_paren_def split: if_splits list.splits)

lemma TOKEN_REGEX_nonempty: "TOKEN_REGEX s = Some t \<Longrightarrow> s \<noteq> [] \<Longrightarrow> t \<noteq> []"
  by (auto simp: TOKEN_REGEX_def split: option.splits
      dest: match_slashed_nonempty match_date_nonempty match_word_nonempty match_paren_nonempty)

text \<open>
  \<open>TOKEN_REGEX.findall\<close>: scan from the left; where a token matches, keep it and go on
  behind it; where none matches, move one character on.
\<close>

function findall :: "string \<Rightarrow> string list" where
  "findall [] = []"
| "findall (c # cs) =
     (case TOKEN_REGEX (c # cs) of
        None \<Rightarrow> findall cs
      | Some t \<Rightarrow> t # findall (drop (length t) (c # cs)))"
  by pat_completeness auto
termination
proof (relation "measure length")
  show "wf (measure length)" by simp
next
  fix c cs assume "TOKEN_REGEX (c # cs) = None"
  show "(cs, c # cs) \<in> measure length" by simp
next
  fix c cs t assume "TOKEN_REGEX (c # cs) = Some t"
  then have "t \<noteq> []" by (rule TOKEN_REGEX_nonempty) simp
  then show "(drop (length t) (c # cs), c # cs) \<in> measure length" by (cases t) auto
qed

definition tokenize :: "string \<Rightarrow> string list" where
  "tokenize rule =
     (if rule = [] then []
      else map (\<lambda>t. if t = ''AND'' \<or> t = ''OR'' then upper t else t) (findall rule))"

section \<open>Libraries\<close>

text \<open>
  The modules \<open>re\<close> and \<open>datetime\<close> are not part of the program; what the filter uses of
  them is a parameter.
  \<^item> \<open>re_compile p\<close> is \<open>re.compile(p, re.IGNORECASE)\<close>: \<open>ReError\<close> when it raises
    \<open>re.error\<close>, \<open>OtherException\<close> when it raises anything else (\<open>OverflowError\<close> for a
    repetition count that is too large, for one), otherwise the compiled pattern's \<open>search\<close>
    as a predicate.
  \<^item> \<open>now_minus tz u n\<close> is \<open>datetime.now(tz) - timedelta(u=n)\<close> as an instant, \<open>None\<close>
    when the subtraction raises \<open>OverflowError\<close>.
  \<^item> \<open>midnight y m d tz\<close> is \<open>datetime(y, m, d, 0, 0, 0, tzinfo=tz)\<close>, \<open>None\<close> when the
    constructor raises.
  \<^item> \<open>fromisoformat s tz\<close> is \<open>datetime.fromisoformat(s)\<close>, read in \<open>tz\<close> when it
    carries no zone, \<open>None\<close> when it raises.
  A message timestamp is an instant together with its zone. Both drivers attach the default
  zone to a \<open>Date\<close> header that has none before they call the filter, so \<open>mail_dt.tzinfo or JST\<close>
  is the zone of the timestamp.
\<close>

datatype time_unit = Days | Hours | Minutes

datatype 'tz datetime = Datetime (instant: int) (tzinfo: 'tz)

datatype compiled = Pattern "string \<Rightarrow> bool" | ReError | OtherException

record 'tz pylib =
  re_compile :: "string \<Rightarrow> compiled"
  now_minus :: "'tz \<Rightarrow> time_unit \<Rightarrow> nat \<Rightarrow> int option"
  midnight :: "nat \<Rightarrow> nat \<Rightarrow> nat \<Rightarrow> 'tz \<Rightarrow> int option"
  fromisoformat :: "string \<Rightarrow> 'tz \<Rightarrow> int option"

datatype error =
    UnexpectedEnd
  | MissingParen
  | InvalidToken string
  | UnexpectedToken string
  | DateOverflow
  | RegexException

section \<open>Date predicates\<close>

text \<open>
  \<open>re.match(r"^DATE([<>]=?)(\S+)$", token, re.I)\<close>, returning the two groups. \<open>$\<close> also
  matches before a line feed that ends the token.
\<close>

definition date_token_match :: "string \<Rightarrow> (string \<times> string) option" where
  "date_token_match token =
     (let body = (if token \<noteq> [] \<and> last token = CHR 0x0A then butlast token else token) in
      if startswith ''DATE'' (upper body) then
        (case drop 4 body of
           [] \<Rightarrow> None
         | c # r \<Rightarrow>
             if c = CHR ''<'' \<or> c = CHR ''>'' then
               (if r \<noteq> [] \<and> hd r = CHR ''='' \<and> tl r \<noteq> [] \<and> list_all (\<lambda>x. \<not> is_space x) (tl r)
                  then Some ([c, CHR ''=''], tl r)
                else if r \<noteq> [] \<and> list_all (\<lambda>x. \<not> is_space x) r then Some ([c], r)
                else None)
             else None)
      else None)"

text \<open>
  \<open>DATE_REL_REGEX.match(rhs)\<close> for \<open>^NOW-(\d+)([dhm])$\<close>, on a right-hand side without
  white space: the digits and the unit letter.
\<close>

definition DATE_REL_REGEX :: "string \<Rightarrow> (string \<times> char) option" where
  "DATE_REL_REGEX rhs =
     (if startswith ''NOW-'' (upper rhs) then
        (let body = drop 4 rhs in
         if 2 \<le> length body \<and> list_all is_digit (butlast body)
            \<and> upper_char (last body) \<in> {CHR ''D'', CHR ''H'', CHR ''M''}
         then Some (butlast body, last body) else None)
      else None)"

text \<open>\<open>re.match(r"^\d{4}-\d{2}-\d{2}$", rhs)\<close>.\<close>

definition is_calendar_date :: "string \<Rightarrow> bool" where
  "is_calendar_date rhs =
     (length rhs = 10 \<and> list_all is_digit (take 4 rhs) \<and> rhs ! 4 = CHR ''-''
      \<and> list_all is_digit (take 2 (drop 5 rhs)) \<and> rhs ! 7 = CHR ''-''
      \<and> list_all is_digit (drop 8 rhs))"

definition eval_date_token :: "'tz pylib \<Rightarrow> string \<Rightarrow> 'tz datetime option \<Rightarrow> error + bool" where
  "eval_date_token lib token mail_dt =
     (case date_token_match token of
        None \<Rightarrow> Inr False
      | Some (op, rhs) \<Rightarrow>
          (case mail_dt of
             None \<Rightarrow> Inr False
           | Some dt \<Rightarrow>
               (let compare = (\<lambda>cmp_dt.
                      if op = ''>='' then instant dt \<ge> cmp_dt
                      else if op = ''<='' then instant dt \<le> cmp_dt
                      else if op = ''>'' then instant dt > cmp_dt
                      else if op = ''<'' then instant dt < cmp_dt
                      else False)
                in case DATE_REL_REGEX rhs of
                     Some (amount, u) \<Rightarrow>
                       (let unit = (if upper_char u = CHR ''D'' then Days
                                    else if upper_char u = CHR ''H'' then Hours else Minutes)
                        in case now_minus lib (tzinfo dt) unit (py_int_digits amount) of
                             None \<Rightarrow> Inl DateOverflow
                           | Some cmp_dt \<Rightarrow> Inr (compare cmp_dt))
                   | None \<Rightarrow>
                       (case (if is_calendar_date rhs
                              then midnight lib (py_int_digits (take 4 rhs))
                                     (py_int_digits (take 2 (drop 5 rhs)))
                                     (py_int_digits (drop 8 rhs)) (tzinfo dt)
                              else fromisoformat lib rhs (tzinfo dt)) of
                          None \<Rightarrow> Inr False
                        | Some cmp_dt \<Rightarrow> Inr (compare cmp_dt)))))"

section \<open>The filter of the POP3 entry point\<close>

text \<open>
  \<open>re.match(r"(?i)KW:/(.*)/$", tok, flags=re.DOTALL)\<close> on a token that ends with a slash:
  the text between the keyword and the last slash.
\<close>

definition slashed_pattern :: "string \<Rightarrow> string \<Rightarrow> string option" where
  "slashed_pattern kw tok =
     (if startswith kw (upper tok) \<and> length kw < length tok \<and> last tok = CHR ''/''
      then Some (butlast (drop (length kw) tok)) else None)"

text \<open>
  The branches of \<open>parse_factor\<close> for a token other than an opening parenthesis, in the order
  of the source. The \<open>SUBJECT\<close> test of this file compares the token as it is written; the
  other keyword tests compare its upper case. Each regular expression is compiled inside a
  \<open>try\<close> that catches \<open>re.error\<close> alone, so any other exception of the compilation leaves
  \<open>parse_and_eval\<close>.
\<close>

definition factor_predicate ::
  "'tz pylib \<Rightarrow> string \<Rightarrow> string list \<Rightarrow> string list \<Rightarrow> string list \<Rightarrow> 'tz datetime option
     \<Rightarrow> string \<Rightarrow> error + bool" where
  "factor_predicate lib subject from_addrs to_addrs cc_addrs mail_dt tok =
     (if startswith ''SUBJECT:/'' tok \<and> endswith ''/'' tok then
        (case slashed_pattern ''SUBJECT:/'' tok of
           None \<Rightarrow> Inl (InvalidToken tok)
         | Some pattern \<Rightarrow>
             (case re_compile lib pattern of
                ReError \<Rightarrow> Inr False
              | OtherException \<Rightarrow> Inl RegexException
              | Pattern rgx \<Rightarrow> Inr (rgx subject)))
      else if startswith ''FROM:/'' (upper tok) \<and> endswith ''/'' tok then
        (case slashed_pattern ''FROM:/'' tok of
           None \<Rightarrow> Inl (InvalidToken tok)
         | Some pattern \<Rightarrow>
             (case re_compile lib pattern of
                ReError \<Rightarrow> Inr False
              | OtherException \<Rightarrow> Inl RegexException
              | Pattern rgx \<Rightarrow> Inr (list_ex rgx from_addrs)))
      else if startswith ''TO:/'' (upper tok) \<and> endswith ''/'' tok then
        (case slashed_pattern ''TO:/'' tok of
           None \<Rightarrow> Inl (InvalidToken tok)
         | Some pattern \<Rightarrow>
             (case re_compile lib pattern of
                ReError \<Rightarrow> Inr False
              | OtherException \<Rightarrow> Inl RegexException
              | Pattern rgx \<Rightarrow> Inr (list_ex rgx to_addrs)))
      else if startswith ''CC:/'' (upper tok) \<and> endswith ''/'' tok then
        (case slashed_pattern ''CC:/'' tok of
           None \<Rightarrow> Inl (InvalidToken tok)
         | Some pattern \<Rightarrow>
             (case re_compile lib pattern of
                ReError \<Rightarrow> Inr False
              | OtherException \<Rightarrow> Inl RegexException
              | Pattern rgx \<Rightarrow> Inr (list_ex rgx cc_addrs)))
      else if startswith ''DATE'' (upper tok) then eval_date_token lib tok mail_dt
      else Inl (UnexpectedToken tok))"

text \<open>
  The three nested functions share the token list and the index \<open>idx\<close>; each returns its
  value with the index it leaves. The two \<open>while\<close> loops are \<open>expr_loop\<close> and \<open>term_loop\<close>.
  The right operand is parsed before the values are combined. \<open>ev\<close> is the predicate
  evaluation of the enclosing call.
\<close>

function parse_expr :: "(string \<Rightarrow> error + bool) \<Rightarrow> string list \<Rightarrow> nat \<Rightarrow> error + bool \<times> nat"
  and expr_loop :: "(string \<Rightarrow> error + bool) \<Rightarrow> string list \<Rightarrow> bool \<Rightarrow> nat \<Rightarrow> error + bool \<times> nat"
  and parse_term :: "(string \<Rightarrow> error + bool) \<Rightarrow> string list \<Rightarrow> nat \<Rightarrow> error + bool \<times> nat"
  and term_loop :: "(string \<Rightarrow> error + bool) \<Rightarrow> string list \<Rightarrow> bool \<Rightarrow> nat \<Rightarrow> error + bool \<times> nat"
  and parse_factor :: "(string \<Rightarrow> error + bool) \<Rightarrow> string list \<Rightarrow> nat \<Rightarrow> error + bool \<times> nat"
where
  "parse_expr ev tokens idx =
     (case parse_term ev tokens idx of
        Inl e \<Rightarrow> Inl e
      | Inr (v, j) \<Rightarrow> expr_loop ev tokens v j)"
| "expr_loop ev tokens v idx =
     (if idx < length tokens \<and> tokens ! idx = ''OR'' then
        (case parse_term ev tokens (idx + 1) of
           Inl e \<Rightarrow> Inl e
         | Inr (rhs, j) \<Rightarrow> expr_loop ev tokens (v \<or> rhs) j)
      else Inr (v, idx))"
| "parse_term ev tokens idx =
     (case parse_factor ev tokens idx of
        Inl e \<Rightarrow> Inl e
      | Inr (v, j) \<Rightarrow> term_loop ev tokens v j)"
| "term_loop ev tokens v idx =
     (if idx < length tokens \<and> tokens ! idx = ''AND'' then
        (case parse_factor ev tokens (idx + 1) of
           Inl e \<Rightarrow> Inl e
         | Inr (rhs, j) \<Rightarrow> term_loop ev tokens (v \<and> rhs) j)
      else Inr (v, idx))"
| "parse_factor ev tokens idx =
     (if idx \<ge> length tokens then Inl UnexpectedEnd
      else if tokens ! idx = ''('' then
        (case parse_expr ev tokens (idx + 1) of
           Inl e \<Rightarrow> Inl e
         | Inr (v, j) \<Rightarrow>
             if j \<ge> length tokens \<or> tokens ! j \<noteq> '')'' then Inl MissingParen
             else Inr (v, j + 1))
      else
        (case ev (tokens ! idx) of
           Inl e \<Rightarrow> Inl e
         | Inr b \<Rightarrow> Inr (b, idx + 1)))"
  by pat_completeness auto

text \<open>Every successful call moves the index forward and leaves it inside the token list.\<close>

lemma parse_progress_dom:
  "parse_expr_expr_loop_parse_term_term_loop_parse_factor_dom (Inl (Inl (ev, tokens, idx))) \<Longrightarrow>
     (\<forall>v j. parse_expr ev tokens idx = Inr (v, j) \<longrightarrow> idx < j \<and> j \<le> length tokens)"
  "parse_expr_expr_loop_parse_term_term_loop_parse_factor_dom (Inl (Inr (ev, tokens, v0, idx))) \<Longrightarrow>
     (\<forall>v j. expr_loop ev tokens v0 idx = Inr (v, j) \<longrightarrow>
        idx \<le> j \<and> (idx \<le> length tokens \<longrightarrow> j \<le> length tokens))"
  "parse_expr_expr_loop_parse_term_term_loop_parse_factor_dom (Inr (Inl (ev, tokens, idx))) \<Longrightarrow>
     (\<forall>v j. parse_term ev tokens idx = Inr (v, j) \<longrightarrow> idx < j \<and> j \<le> length tokens)"
  "parse_expr_expr_loop_parse_term_term_loop_parse_factor_dom (Inr (Inr (Inl (ev, tokens, v0, idx)))) \<Longrightarrow>
     (\<forall>v j. term_loop ev tokens v0 idx = Inr (v, j) \<longrightarrow>
        idx \<le> j \<and> (idx \<le> length tokens \<longrightarrow> j \<le> length tokens))"
  "parse_expr_expr_loop_parse_term_term_loop_parse_factor_dom (Inr (Inr (Inr (ev, tokens, idx)))) \<Longrightarrow>
     (\<forall>v j. parse_factor ev tokens idx = Inr (v, j) \<longrightarrow> idx < j \<and> j \<le> length tokens)"
proof (induct rule: parse_expr_expr_loop_parse_term_term_loop_parse_factor.pinduct)
  case (1 ev tokens idx)
  then show ?case
    by (fastforce simp: parse_expr.psimps split: sum.splits prod.splits)
next
  case (2 ev tokens v idx)
  then show ?case
    by (fastforce simp: expr_loop.psimps split: sum.splits prod.splits if_splits)
next
  case (3 ev tokens idx)
  then show ?case
    by (fastforce simp: parse_term.psimps split: sum.splits prod.splits)
next
  case (4 ev tokens v idx)
  then show ?case
    by (fastforce simp: term_loop.psimps split: sum.splits prod.splits if_splits)
next
  case (5 ev tokens idx)
  then show ?case
    by (fastforce simp: parse_factor.psimps split: sum.splits prod.splits if_splits)
qed

termination parse_expr
proof (relation "measure (\<lambda>x. case x of
          Inl (Inl (ev, tokens, idx)) \<Rightarrow> 3 * (Suc (length tokens) - idx) + 2
        | Inl (Inr (ev, tokens, v, idx)) \<Rightarrow> 3 * (Suc (length tokens) - idx)
        | Inr (Inl (ev, tokens, idx)) \<Rightarrow> 3 * (Suc (length tokens) - idx) + 1
        | Inr (Inr (Inl (ev, tokens, v, idx))) \<Rightarrow> 3 * (Suc (length tokens) - idx)
        | Inr (Inr (Inr (ev, tokens, idx))) \<Rightarrow> 3 * (Suc (length tokens) - idx))", goal_cases)
  case 1
  show ?case by simp
next
  case (2 ev tokens idx)
  show ?case by simp
next
  case (3 ev tokens idx b v j)
  then show ?case using parse_progress_dom(3)[of ev tokens idx] by auto
next
  case (4 ev tokens v idx)
  then show ?case by auto
next
  case (5 ev tokens v idx b rhs j)
  then show ?case using parse_progress_dom(3)[of ev tokens "idx + 1"] by auto
next
  case (6 ev tokens idx)
  show ?case by simp
next
  case (7 ev tokens idx b v j)
  then show ?case using parse_progress_dom(5)[of ev tokens idx] by auto
next
  case (8 ev tokens v idx)
  then show ?case by auto
next
  case (9 ev tokens v idx b rhs j)
  then show ?case using parse_progress_dom(5)[of ev tokens "idx + 1"] by auto
next
  case (10 ev tokens idx)
  then show ?case by auto
qed

declare parse_expr.simps [simp del] expr_loop.simps [simp del] parse_term.simps [simp del]
  term_loop.simps [simp del] parse_factor.simps [simp del]

definition parse_and_eval ::
  "'tz pylib \<Rightarrow> string \<Rightarrow> string \<Rightarrow> string list \<Rightarrow> string list \<Rightarrow> string list
     \<Rightarrow> 'tz datetime option \<Rightarrow> error + bool" where
  "parse_and_eval lib rule subject from_addrs to_addrs cc_addrs mail_dt =
     (let tokens = tokenize rule in
      if tokens = [] then Inr True
      else (case parse_expr (factor_predicate lib subject from_addrs to_addrs cc_addrs mail_dt)
                   tokens 0 of
              Inl e \<Rightarrow> Inl e
            | Inr (v, _) \<Rightarrow> Inr v))"

section \<open>The filter of the EML entry point\<close>

text \<open>
  The second copy of the filter. Every keyword test compares the upper case of the token, and
  a token whose shape test fails yields the empty pattern instead of an error.
\<close>

definition factor_predicate_eml ::
  "'tz pylib \<Rightarrow> string \<Rightarrow> string list \<Rightarrow> string list \<Rightarrow> string list \<Rightarrow> 'tz datetime option
     \<Rightarrow> string \<Rightarrow> error + bool" where
  "factor_predicate_eml lib subject from_addrs to_addrs cc_addrs mail_dt tok =
     (if startswith ''SUBJECT:/'' (upper tok) \<and> endswith ''/'' tok then
        (let pattern = (case slashed_pattern ''SUBJECT:/'' tok of None \<Rightarrow> [] | Some p \<Rightarrow> p) in
         case re_compile lib pattern of
           ReError \<Rightarrow> Inr False
         | OtherException \<Rightarrow> Inl RegexException
         | Pattern rgx \<Rightarrow> Inr (rgx subject))
      else if startswith ''FROM:/'' (upper tok) \<and> endswith ''/'' tok then
        (let pattern = (case slashed_pattern ''FROM:/'' tok of None \<Rightarrow> [] | Some p \<Rightarrow> p) in
         case re_compile lib pattern of
           ReError \<Rightarrow> Inr False
         | OtherException \<Rightarrow> Inl RegexException
         | Pattern rgx \<Rightarrow> Inr (list_ex rgx from_addrs))
      else if startswith ''TO:/'' (upper tok) \<and> endswith ''/'' tok then
        (let pattern = (case slashed_pattern ''TO:/'' tok of None \<Rightarrow> [] | Some p \<Rightarrow> p) in
         case re_compile lib pattern of
           ReError \<Rightarrow> Inr False
         | OtherException \<Rightarrow> Inl RegexException
         | Pattern rgx \<Rightarrow> Inr (list_ex rgx to_addrs))
      else if startswith ''CC:/'' (upper tok) \<and> endswith ''/'' tok then
        (let pattern = (case slashed_pattern ''CC:/'' tok of None \<Rightarrow> [] | Some p \<Rightarrow> p) in
         case re_compile lib pattern of
           ReError \<Rightarrow> Inr False
         | OtherException \<Rightarrow> Inl RegexException
         | Pattern rgx \<Rightarrow> Inr (list_ex rgx cc_addrs))
      else if startswith ''DATE'' (upper tok) then eval_date_token lib tok mail_dt
      else Inl (UnexpectedToken tok))"

text \<open>
  The loops of this copy combine the values as \<open>val = val or parse_term()\<close> and
  \<open>val = val and parse_factor()\<close>: the right operand is parsed only when the left value
  does not already decide the result, and otherwise the index stays behind the operator.
\<close>

function parse_expr_eml :: "(string \<Rightarrow> error + bool) \<Rightarrow> string list \<Rightarrow> nat \<Rightarrow> error + bool \<times> nat"
  and expr_loop_eml :: "(string \<Rightarrow> error + bool) \<Rightarrow> string list \<Rightarrow> bool \<Rightarrow> nat \<Rightarrow> error + bool \<times> nat"
  and parse_term_eml :: "(string \<Rightarrow> error + bool) \<Rightarrow> string list \<Rightarrow> nat \<Rightarrow> error + bool \<times> nat"
  and term_loop_eml :: "(string \<Rightarrow> error + bool) \<Rightarrow> string list \<Rightarrow> bool \<Rightarrow> nat \<Rightarrow> error + bool \<times> nat"
  and parse_factor_eml :: "(string \<Rightarrow> error + bool) \<Rightarrow> string list \<Rightarrow> nat \<Rightarrow> error + bool \<times> nat"
where
  "parse_expr_eml ev tokens idx =
     (case parse_term_eml ev tokens idx of
        Inl e \<Rightarrow> Inl e
      | Inr (val, j) \<Rightarrow> expr_loop_eml ev tokens val j)"
| "expr_loop_eml ev tokens val idx =
     (if idx < length tokens \<and> tokens ! idx = ''OR'' then
        (if val then expr_loop_eml ev tokens val (idx + 1)
         else (case parse_term_eml ev tokens (idx + 1) of
                 Inl e \<Rightarrow> Inl e
               | Inr (rhs, j) \<Rightarrow> expr_loop_eml ev tokens rhs j))
      else Inr (val, idx))"
| "parse_term_eml ev tokens idx =
     (case parse_factor_eml ev tokens idx of
        Inl e \<Rightarrow> Inl e
      | Inr (val, j) \<Rightarrow> term_loop_eml ev tokens val j)"
| "term_loop_eml ev tokens val idx =
     (if idx < length tokens \<and> tokens ! idx = ''AND'' then
        (if \<not> val then term_loop_eml ev tokens val (idx + 1)
         else (case parse_factor_eml ev tokens (idx + 1) of
                 Inl e \<Rightarrow> Inl e
               | Inr (rhs, j) \<Rightarrow> term_loop_eml ev tokens rhs j))
      else Inr (val, idx))"
| "parse_factor_eml ev tokens idx =
     (if idx \<ge> length tokens then Inl UnexpectedEnd
      else if tokens ! idx = ''('' then
        (case parse_expr_eml ev tokens (idx + 1) of
           Inl e \<Rightarrow> Inl e
         | Inr (val, j) \<Rightarrow>
             if j \<ge> length tokens \<or> tokens ! j \<noteq> '')'' then Inl MissingParen
             else Inr (val, j + 1))
      else
        (case ev (tokens ! idx) of
           Inl e \<Rightarrow> Inl e
         | Inr b \<Rightarrow> Inr (b, idx + 1)))"
  by pat_completeness auto

lemma parse_progress_eml_dom:
  "parse_expr_eml_expr_loop_eml_parse_term_eml_term_loop_eml_parse_factor_eml_dom (Inl (Inl (ev, tokens, idx))) \<Longrightarrow>
     (\<forall>v j. parse_expr_eml ev tokens idx = Inr (v, j) \<longrightarrow> idx < j \<and> j \<le> length tokens)"
  "parse_expr_eml_expr_loop_eml_parse_term_eml_term_loop_eml_parse_factor_eml_dom (Inl (Inr (ev, tokens, v0, idx))) \<Longrightarrow>
     (\<forall>v j. expr_loop_eml ev tokens v0 idx = Inr (v, j) \<longrightarrow>
        idx \<le> j \<and> (idx \<le> length tokens \<longrightarrow> j \<le> length tokens))"
  "parse_expr_eml_expr_loop_eml_parse_term_eml_term_loop_eml_parse_factor_eml_dom (Inr (Inl (ev, tokens, idx))) \<Longrightarrow>
     (\<forall>v j. parse_term_eml ev tokens idx = Inr (v, j) \<longrightarrow> idx < j \<and> j \<le> length tokens)"
  "parse_expr_eml_expr_loop_eml_parse_term_eml_term_loop_eml_parse_factor_eml_dom (Inr (Inr (Inl (ev, tokens, v0, idx)))) \<Longrightarrow>
     (\<forall>v j. term_loop_eml ev tokens v0 idx = Inr (v, j) \<longrightarrow>
        idx \<le> j \<and> (idx \<le> length tokens \<longrightarrow> j \<le> length tokens))"
  "parse_expr_eml_expr_loop_eml_parse_term_eml_term_loop_eml_parse_factor_eml_dom (Inr (Inr (Inr (ev, tokens, idx)))) \<Longrightarrow>
     (\<forall>v j. parse_factor_eml ev tokens idx = Inr (v, j) \<longrightarrow> idx < j \<and> j \<le> length tokens)"
proof (induct rule: parse_expr_eml_expr_loop_eml_parse_term_eml_term_loop_eml_parse_factor_eml.pinduct)
  case (1 ev tokens idx)
  then show ?case
    by (fastforce simp: parse_expr_eml.psimps split: sum.splits prod.splits)
next
  case (2 ev tokens v idx)
  then show ?case
    by (fastforce simp: expr_loop_eml.psimps split: sum.splits prod.splits if_splits)
next
  case (3 ev tokens idx)
  then show ?case
    by (fastforce simp: parse_term_eml.psimps split: sum.splits prod.splits)
next
  case (4 ev tokens v idx)
  then show ?case
    by (fastforce simp: term_loop_eml.psimps split: sum.splits prod.splits if_splits)
next
  case (5 ev tokens idx)
  then show ?case
    by (fastforce simp: parse_factor_eml.psimps split: sum.splits prod.splits if_splits)
qed

termination parse_expr_eml
proof (relation "measure (\<lambda>x. case x of
          Inl (Inl (ev, tokens, idx)) \<Rightarrow> 3 * (Suc (length tokens) - idx) + 2
        | Inl (Inr (ev, tokens, v, idx)) \<Rightarrow> 3 * (Suc (length tokens) - idx)
        | Inr (Inl (ev, tokens, idx)) \<Rightarrow> 3 * (Suc (length tokens) - idx) + 1
        | Inr (Inr (Inl (ev, tokens, v, idx))) \<Rightarrow> 3 * (Suc (length tokens) - idx)
        | Inr (Inr (Inr (ev, tokens, idx))) \<Rightarrow> 3 * (Suc (length tokens) - idx))", goal_cases)
  case 1
  show ?case by simp
next
  case (2 ev tokens idx)
  show ?case by simp
next
  case (3 ev tokens idx b v j)
  then show ?case using parse_progress_eml_dom(3)[of ev tokens idx] by auto
next
  case (4 ev tokens v idx)
  then show ?case by auto
next
  case (5 ev tokens v idx)
  then show ?case by auto
next
  case (6 ev tokens v idx b rhs j)
  then show ?case using parse_progress_eml_dom(3)[of ev tokens "idx + 1"] by auto
next
  case (7 ev tokens idx)
  show ?case by simp
next
  case (8 ev tokens idx b v j)
  then show ?case using parse_progress_eml_dom(5)[of ev tokens idx] by auto
next
  case (9 ev tokens v idx)
  then show ?case by auto
next
  case (10 ev tokens v idx)
  then show ?case by auto
next
  case (11 ev tokens v idx b rhs j)
  then show ?case using parse_progress_eml_dom(5)[of ev tokens "idx + 1"] by auto
next
  case (12 ev tokens idx)
  then show ?case by auto
qed


declare parse_expr_eml.simps [simp del] expr_loop_eml.simps [simp del]
  parse_term_eml.simps [simp del] term_loop_eml.simps [simp del] parse_factor_eml.simps [simp del]

definition parse_and_eval_eml ::
  "'tz pylib \<Rightarrow> string \<Rightarrow> string \<Rightarrow> string list \<Rightarrow> string list \<Rightarrow> string list
     \<Rightarrow> 'tz datetime option \<Rightarrow> error + bool" where
  "parse_and_eval_eml lib rule subject from_addrs to_addrs cc_addrs mail_dt =
     (let tokens = tokenize rule in
      if tokens = [] then Inr True
      else (case parse_expr_eml
                   (factor_predicate_eml lib subject from_addrs to_addrs cc_addrs mail_dt)
                   tokens 0 of
              Inl e \<Rightarrow> Inl e
            | Inr (v, _) \<Rightarrow> Inr v))"

section \<open>The filter step of the message loop\<close>


definition main_filter_eml ::
  "'tz pylib \<Rightarrow> string \<Rightarrow> string \<Rightarrow> string list \<Rightarrow> string list \<Rightarrow> string list
     \<Rightarrow> 'tz datetime option \<Rightarrow> bool" where
  "main_filter_eml lib FILTER_RULE subject from_addrs to_addrs cc_addrs mail_dt =
     (if FILTER_RULE \<noteq> [] then
        (case parse_and_eval_eml lib FILTER_RULE subject from_addrs to_addrs cc_addrs mail_dt of
           Inl e \<Rightarrow> False
         | Inr ok \<Rightarrow> ok)
      else True)"

section \<open>HTML\<close>

text \<open>
  \<open>sanitize_html\<close> and \<open>html_to_text\<close> are the same in both files. BeautifulSoup is an
  optional import: \<open>BeautifulSoup lib\<close> is \<open>None\<close> when it is not installed. Its parser and
  its serializer are parameters; a parsed document is a list of nodes, where \<open>Text\<close> is a
  string that \<open>get_text\<close> returns, \<open>Other\<close> a string that it skips (a comment, the content of a
  script), and \<open>Tag\<close> an element with its attributes and children. \<open>html.unescape\<close> is a
  parameter too, and so is the interpreter's limit on the length of integer literals,
  \<open>sys.get_int_max_str_digits()\<close>, which is 0 when there is none.
\<close>

datatype node =
    Text string
  | Other string
  | Tag string "(string \<times> string) list" "node list"

record bs4 =
  soup_parse :: "string \<Rightarrow> node list"
  soup_str :: "node list \<Rightarrow> string"

record htmllib =
  BeautifulSoup :: "bs4 option"
  unescape :: "string \<Rightarrow> string"
  int_max_str_digits :: nat

text \<open>
  \<open>int(s)\<close> for a string of code points below 256; \<open>None\<close> stands for \<open>ValueError\<close>. White
  space around the literal is skipped, where white space is narrower than for \<open>str.strip\<close>: the
  code points 9 to 13 and 32, and of those above 126 the two that \<open>str.isspace\<close> accepts, 133
  and 160; the separators 28 to 31 are not skipped. A sign may come first, and the digits may be
  grouped by single underscores. Where the interpreter limits integer literals, one of more
  than 640 digits that exceeds the limit is refused; the zeros in front count, the sign and the
  underscores do not.
\<close>

definition int_space :: "char \<Rightarrow> bool" where
  "int_space c =
     (let n = (of_char c :: nat) in (9 \<le> n \<and> n \<le> 13) \<or> n = 32 \<or> n = 133 \<or> n = 160)"

fun digits_ok :: "string \<Rightarrow> bool" where
  "digits_ok [] = False"
| "digits_ok [c] = is_digit c"
| "digits_ok (c # d # r) =
     (is_digit c \<and> (if d = CHR ''_'' then r \<noteq> [] \<and> digits_ok r else digits_ok (d # r)))"

definition py_int :: "nat \<Rightarrow> string \<Rightarrow> int option" where
  "py_int max_str_digits s =
     (let t = rev (dropWhile int_space (rev (dropWhile int_space s)));
          neg = (t \<noteq> [] \<and> hd t = CHR ''-'');
          body = (if t \<noteq> [] \<and> (hd t = CHR ''-'' \<or> hd t = CHR ''+'') then tl t else t);
          digits = filter (\<lambda>c. c \<noteq> CHR ''_'') body
      in if digits_ok body
            \<and> \<not> (max_str_digits \<noteq> 0 \<and> 640 < length digits \<and> max_str_digits < length digits)
         then Some ((if neg then - 1 else 1) * int (py_int_digits digits))
         else None)"

definition attr_get :: "(string \<times> string) list \<Rightarrow> string \<Rightarrow> string \<Rightarrow> string" where
  "attr_get attrs name dflt = (case map_of attrs name of None \<Rightarrow> dflt | Some v \<Rightarrow> v)"

text \<open>
  The body of the loop over \<open>soup.find_all("img")\<close>: both attributes are converted, a missing
  one as \<open>"0"\<close>; a failed conversion is caught and leaves the element alone.
\<close>

definition is_tracking_pixel :: "nat \<Rightarrow> (string \<times> string) list \<Rightarrow> bool" where
  "is_tracking_pixel lim attrs =
     (case py_int lim (attr_get attrs ''width'' ''0'') of
        None \<Rightarrow> False
      | Some w \<Rightarrow>
          (case py_int lim (attr_get attrs ''height'' ''0'') of
             None \<Rightarrow> False
           | Some h \<Rightarrow> (w \<noteq> 0 \<and> w \<le> 1) \<or> (h \<noteq> 0 \<and> h \<le> 1)))"

text \<open>
  \<open>decomposed lim n\<close>: the loop calls \<open>decompose()\<close> on the node. The tree after the loop has
  lost these nodes with everything below them. \<open>lim\<close> is the limit on integer literals.
\<close>

fun decomposed :: "nat \<Rightarrow> node \<Rightarrow> bool" where
  "decomposed lim (Tag name attrs children) = (name = ''img'' \<and> is_tracking_pixel lim attrs)"
| "decomposed lim (Text s) = False"
| "decomposed lim (Other s) = False"

fun remove_tracking_pixels_node :: "nat \<Rightarrow> node \<Rightarrow> node" where
  "remove_tracking_pixels_node lim (Tag name attrs children) =
     Tag name attrs
       (map (remove_tracking_pixels_node lim) (filter (\<lambda>n. \<not> decomposed lim n) children))"
| "remove_tracking_pixels_node lim (Text s) = Text s"
| "remove_tracking_pixels_node lim (Other s) = Other s"

definition remove_tracking_pixels :: "nat \<Rightarrow> node list \<Rightarrow> node list" where
  "remove_tracking_pixels lim soup =
     map (remove_tracking_pixels_node lim) (filter (\<lambda>n. \<not> decomposed lim n) soup)"

text \<open>\<open>soup.get_text(sep)\<close>: the text strings in document order, joined by \<open>sep\<close>.\<close>

fun strings :: "node \<Rightarrow> string list" where
  "strings (Text s) = [s]"
| "strings (Other s) = []"
| "strings (Tag name attrs children) = concat (map strings children)"

fun join :: "string \<Rightarrow> string list \<Rightarrow> string" where
  "join sep [] = []"
| "join sep [x] = x"
| "join sep (x # y # ys) = x @ sep @ join sep (y # ys)"

text \<open>\<open>soup.find_all("img")\<close>, as the attribute lists of the elements in document order.\<close>

fun find_all_img_node :: "node \<Rightarrow> (string \<times> string) list list" where
  "find_all_img_node (Tag name attrs children) =
     (if name = ''img'' then [attrs] else []) @ concat (map find_all_img_node children)"
| "find_all_img_node (Text s) = []"
| "find_all_img_node (Other s) = []"

definition find_all_img :: "node list \<Rightarrow> (string \<times> string) list list" where
  "find_all_img soup = concat (map find_all_img_node soup)"

text \<open>An \<open>img\<close> element has no children (the parser closes it at once).\<close>

fun img_is_void :: "node \<Rightarrow> bool" where
  "img_is_void (Tag name attrs children) =
     ((name = ''img'' \<longrightarrow> children = []) \<and> (\<forall>n \<in> set children. img_is_void n))"
| "img_is_void (Text s) = True"
| "img_is_void (Other s) = True"

definition get_text :: "string \<Rightarrow> node list \<Rightarrow> string" where
  "get_text sep soup = join sep (concat (map strings soup))"

text \<open>
  The path without BeautifulSoup substitutes four regular expressions. Each function below
  gives the length of the match of one of them at the start of its argument:
  \<open><(script|style)[\s\S]*?</\1>\<close>, \<open><br\s*/?>\<close> and \<open></p\s*>\<close> with \<open>re.I\<close>, and
  \<open><[^>]+>\<close>. \<open>find_ci p s\<close> is the first position of \<open>s\<close> where the upper-case text \<open>p\<close>
  starts in either case.
\<close>

fun find_ci :: "string \<Rightarrow> string \<Rightarrow> nat option" where
  "find_ci p [] = (if p = [] then Some 0 else None)"
| "find_ci p (c # cs) =
     (if startswith p (upper (c # cs)) then Some 0 else map_option Suc (find_ci p cs))"

definition match_script_style :: "string \<Rightarrow> nat option" where
  "match_script_style s =
     (if startswith ''<SCRIPT'' (upper s) then map_option (\<lambda>j. 7 + j + 9) (find_ci ''</SCRIPT>'' (drop 7 s))
      else if startswith ''<STYLE'' (upper s) then map_option (\<lambda>j. 6 + j + 8) (find_ci ''</STYLE>'' (drop 6 s))
      else None)"

definition match_br :: "string \<Rightarrow> nat option" where
  "match_br s =
     (if startswith ''<BR'' (upper s) then
        (let sp = takeWhile is_space (drop 3 s); r = drop (3 + length sp) s in
         case r of
           [] \<Rightarrow> None
         | c # r' \<Rightarrow>
             if c = CHR ''/'' \<and> r' \<noteq> [] \<and> hd r' = CHR ''>'' then Some (3 + length sp + 2)
             else if c = CHR ''>'' then Some (3 + length sp + 1)
             else None)
      else None)"

definition match_p_close :: "string \<Rightarrow> nat option" where
  "match_p_close s =
     (if startswith ''</P'' (upper s) then
        (let sp = takeWhile is_space (drop 3 s) in
         case drop (3 + length sp) s of
           [] \<Rightarrow> None
         | c # _ \<Rightarrow> if c = CHR ''>'' then Some (3 + length sp + 1) else None)
      else None)"

definition match_tag :: "string \<Rightarrow> nat option" where
  "match_tag s =
     (case s of
        [] \<Rightarrow> None
      | c # r \<Rightarrow>
          if c = CHR ''<'' then
            (let inner = takeWhile (\<lambda>x. x \<noteq> CHR ''>'') r in
             if inner \<noteq> [] \<and> length inner < length r then Some (length inner + 2) else None)
          else None)"

text \<open>
  \<open>re.sub\<close> with the matcher \<open>m\<close>: leftmost matches are replaced, the scan goes on behind
  each of them. None of the four expressions matches the empty string, so a match of length
  \<open>n\<close> at \<open>c # cs\<close> leaves \<open>drop (n - 1) cs\<close>.
\<close>

function re_sub :: "(string \<Rightarrow> nat option) \<Rightarrow> string \<Rightarrow> string \<Rightarrow> string" where
  "re_sub m repl [] = []"
| "re_sub m repl (c # cs) =
     (case m (c # cs) of
        None \<Rightarrow> c # re_sub m repl cs
      | Some n \<Rightarrow> repl @ re_sub m repl (drop (n - 1) cs))"
  by pat_completeness auto
termination
  by (relation "measure (\<lambda>(m, repl, s). length s)") auto

definition html_to_text :: "htmllib \<Rightarrow> string \<Rightarrow> string" where
  "html_to_text lib html =
     (if html = [] then []
      else case BeautifulSoup lib of
        Some bs \<Rightarrow>
          strip (unescape lib (get_text [CHR 0x0A]
            (remove_tracking_pixels (int_max_str_digits lib) (soup_parse bs html))))
      | None \<Rightarrow>
          (let text = re_sub match_script_style [] html;
               text = re_sub match_br [CHR 0x0A] text;
               text = re_sub match_p_close [CHR 0x0A, CHR 0x0A] text;
               text = re_sub match_tag [] text
           in strip (unescape lib text)))"

definition sanitize_html :: "htmllib \<Rightarrow> string \<Rightarrow> string" where
  "sanitize_html lib html =
     (if html = [] then []
      else case BeautifulSoup lib of
        Some bs \<Rightarrow>
          soup_str bs (remove_tracking_pixels (int_max_str_digits lib) (soup_parse bs html))
      | None \<Rightarrow> html)"

section \<open>Body extraction\<close>

text \<open>
  The block of \<open>main\<close> that fills the text and HTML bodies, the same in both files. A part
  carries what the loop reads of it: \<open>get_content_disposition()\<close>, \<open>get_content_type()\<close>,
  \<open>get_payload(decode=True)\<close> and \<open>get_content_charset()\<close>. A message that is not multipart
  is one part; for a multipart message the list is what \<open>msg.walk()\<close> yields.
  \<open>bytes_decode charset data\<close> is \<open>data.decode(charset, errors="replace")\<close>, \<open>None\<close> when it
  raises; \<open>utf8_replace\<close> is the decoding as UTF-8 with replacement, which cannot fail.
\<close>

type_synonym bytes = string

record part =
  content_disposition :: "string option"
  content_type :: string
  payload :: "bytes option"
  content_charset :: "string option"

datatype message = Single part | Multipart "part list"

record codecs =
  bytes_decode :: "string \<Rightarrow> bytes \<Rightarrow> string option"
  utf8_replace :: "bytes \<Rightarrow> string"

definition decode_part :: "codecs \<Rightarrow> part \<Rightarrow> string" where
  "decode_part cd p =
     (let data = (case payload p of None \<Rightarrow> [] | Some b \<Rightarrow> b);
          charset = (case content_charset p of
                       None \<Rightarrow> ''utf-8''
                     | Some c \<Rightarrow> if c = [] then ''utf-8'' else c)
      in case bytes_decode cd charset data of
           Some content \<Rightarrow> content
         | None \<Rightarrow> utf8_replace cd data)"

definition walk_step ::
  "codecs \<Rightarrow> string option \<times> string option \<Rightarrow> part \<Rightarrow> string option \<times> string option" where
  "walk_step cd st p =
     (case st of (text_body, html_raw) \<Rightarrow>
        if content_disposition p = Some ''attachment'' then (text_body, html_raw)
        else
          (let content = decode_part cd p in
           if content_type p = ''text/plain'' \<and> text_body = None then (Some (strip content), html_raw)
           else if content_type p = ''text/html'' \<and> html_raw = None then (text_body, Some content)
           else (text_body, html_raw)))"

definition extract_bodies :: "codecs \<Rightarrow> message \<Rightarrow> string option \<times> string option" where
  "extract_bodies cd msg =
     (case msg of
        Multipart parts \<Rightarrow> foldl (walk_step cd) (None, None) parts
      | Single p \<Rightarrow>
          (let content = decode_part cd p in
           if content_type p = ''text/plain'' then (Some (strip content), None)
           else if content_type p = ''text/html'' then (None, Some content)
           else (None, None)))"

definition text_field :: "codecs \<Rightarrow> htmllib \<Rightarrow> message \<Rightarrow> string" where
  "text_field cd lib msg =
     (case extract_bodies cd msg of (text_body, html_raw) \<Rightarrow>
        (let text_body =
               (if (text_body = None \<or> text_body = Some []) \<and> html_raw \<noteq> None \<and> html_raw \<noteq> Some []
                then map_option (html_to_text lib) html_raw
                else text_body)
         in case text_body of None \<Rightarrow> [] | Some s \<Rightarrow> s))"

section \<open>Identity key of a saved message\<close>

text \<open>
  \<open>msg_get\<close> is \<open>msg.get\<close>; \<open>message_id_header\<close> is
  \<open>msg.get("Message-Id") or msg.get("Message-ID") or ""\<close>. \<open>sha1_hexdigest\<close> is
  \<open>hashlib.sha1(...).hexdigest()\<close>.
\<close>

definition message_id_header :: "(string \<Rightarrow> string option) \<Rightarrow> string" where
  "message_id_header msg_get =
     (case msg_get ''Message-Id'' of
        Some v \<Rightarrow> if v \<noteq> [] then v
                  else (case msg_get ''Message-ID'' of Some v' \<Rightarrow> v' | None \<Rightarrow> [])
      | None \<Rightarrow> (case msg_get ''Message-ID'' of Some v' \<Rightarrow> v' | None \<Rightarrow> []))"

definition make_uidl_for_eml :: "(bytes \<Rightarrow> string) \<Rightarrow> bytes \<Rightarrow> (string \<Rightarrow> string option) \<Rightarrow> string" where
  "make_uidl_for_eml sha1_hexdigest msg_bytes msg_get =
     (let mid = strip (message_id_header msg_get)
      in if mid \<noteq> [] then mid else ''SHA1-'' @ sha1_hexdigest msg_bytes)"

section \<open>A library instance for concrete evaluations\<close>

text \<open>
  The general results below hold for every library. Concrete evaluations use this instance:
  a pattern made of ASCII letters and digits only compiles to the case-insensitive substring
  search that \<open>re\<close> performs for it; a letter or digit repeated \<open>{n}\<close> times, with \<open>n\<close> of
  more than ten digits and so above the largest count of \<open>re\<close>, 4294967295, raises
  \<open>OverflowError\<close>; every other pattern
  is rejected with \<open>re.error\<close>, as the unterminated set \<open>[\<close> of the examples is; the date
  operations are not used by the examples and fail.
\<close>

fun contains :: "string \<Rightarrow> string \<Rightarrow> bool" where
  "contains p [] = (p = [])"
| "contains p (c # cs) = (startswith p (c # cs) \<or> contains p cs)"

definition is_alnum :: "char \<Rightarrow> bool" where
  "is_alnum c =
     (let n = (of_char c :: nat)
      in (48 \<le> n \<and> n \<le> 57) \<or> (65 \<le> n \<and> n \<le> 90) \<or> (97 \<le> n \<and> n \<le> 122))"

definition repeat_too_large :: "string \<Rightarrow> bool" where
  "repeat_too_large pattern =
     (case pattern of
        c # b # r \<Rightarrow>
          is_alnum c \<and> b = CHR ''{'' \<and> 2 \<le> length r \<and> last r = CHR ''}''
          \<and> list_all is_digit (butlast r)
          \<and> 10 < length (dropWhile (\<lambda>d. d = CHR ''0'') (butlast r))
      | _ \<Rightarrow> False)"

definition literal_re :: "string \<Rightarrow> compiled" where
  "literal_re pattern =
     (if pattern \<noteq> [] \<and> list_all is_alnum pattern
      then Pattern (\<lambda>s. contains (upper pattern) (upper s))
      else if repeat_too_large pattern then OtherException
      else ReError)"

definition example_lib :: "unit pylib" where
  "example_lib =
     \<lparr>re_compile = literal_re, now_minus = (\<lambda>tz u n. None), midnight = (\<lambda>y m d tz. None),
      fromisoformat = (\<lambda>s tz. None)\<rparr>"

text \<open>
  For the HTML and body examples: \<open>no_parser\<close> is a system without BeautifulSoup, and
  \<open>with_parser\<close> one whose parser knows the one document of the examples (anything else is
  taken as a text node) and whose serializer writes elements plainly; \<open>unescape\<close> is the
  identity, as \<open>html.unescape\<close> is on text without \<open>&\<close>, and the limit on integer literals is
  the interpreter's default of 4300 digits. \<open>ascii_codecs\<close> decodes ASCII bytes
  to the same characters. \<open>empty_digest\<close> is the SHA-1 digest of the empty message, the only
  one the examples hash.
\<close>

definition no_parser :: htmllib where
  "no_parser = \<lparr>BeautifulSoup = None, unescape = (\<lambda>s. s), int_max_str_digits = 4300\<rparr>"

fun render :: "node \<Rightarrow> string" where
  "render (Text s) = s"
| "render (Other s) = []"
| "render (Tag name attrs children) =
     ''<'' @ name @ concat (map (\<lambda>(k, v). '' '' @ k @ ''=\"'' @ v @ ''\"'') attrs) @ ''>''
       @ concat (map render children) @ ''</'' @ name @ ''>''"

definition example_bs4 :: bs4 where
  "example_bs4 =
     \<lparr>soup_parse = (\<lambda>html.
        if html = ''<img width=\"1\" height=\"1\" src=\"x\">''
        then [Tag ''img'' [(''width'', ''1''), (''height'', ''1''), (''src'', ''x'')] []]
        else [Text html]),
      soup_str = (\<lambda>soup. concat (map render soup))\<rparr>"

definition with_parser :: htmllib where
  "with_parser =
     \<lparr>BeautifulSoup = Some example_bs4, unescape = (\<lambda>s. s), int_max_str_digits = 4300\<rparr>"

definition ascii_codecs :: codecs where
  "ascii_codecs = \<lparr>bytes_decode = (\<lambda>charset data. Some data), utf8_replace = (\<lambda>data. data)\<rparr>"

definition empty_digest :: "bytes \<Rightarrow> string" where
  "empty_digest data = ''da39a3ee5e6b4b0d3255bfef95601890afd80709''"

definition text_part :: "string \<Rightarrow> string \<Rightarrow> part" where
  "text_part ctype body =
     \<lparr>content_disposition = None, content_type = ctype, payload = Some body,
      content_charset = Some ''us-ascii''\<rparr>"

definition container :: part where
  "container =
     \<lparr>content_disposition = None, content_type = ''multipart/alternative'', payload = None,
      content_charset = None\<rparr>"

section \<open>Auxiliary notions\<close>

text \<open>\<open>next_is w rest\<close>: the token list \<open>rest\<close> starts with the token \<open>w\<close>.\<close>

definition next_is :: "string \<Rightarrow> string list \<Rightarrow> bool" where
  "next_is w rest = (case rest of [] \<Rightarrow> False | t # _ \<Rightarrow> t = w)"

text \<open>\<open>head_is L s\<close>: the string \<open>s\<close> starts with the letter \<open>L\<close> in either case.\<close>

definition head_is :: "char \<Rightarrow> string \<Rightarrow> bool" where
  "head_is L s = (case s of [] \<Rightarrow> False | c # _ \<Rightarrow> upper_char c = L)"

section \<open>Lemmas about the tokenizer\<close>












lemma head_is_append: "head_is L t \<Longrightarrow> head_is L (t @ x)"
  by (cases t) (auto simp: head_is_def)






















section \<open>Lemmas about the two parsers\<close>

text \<open>
  Success moves the index forward inside the token list; a successful parse is unchanged when
  tokens are appended, unless it stopped at the end of the list and the appended tokens start
  with an operator its loops look for; prepending a token shifts every index by one; an
  operator appended to a complete expression ends in \<open>Unexpected end\<close>.
\<close>

lemma parse_progress:
  "parse_expr ev tokens idx = Inr (v, j) \<Longrightarrow> idx < j \<and> j \<le> length tokens"
  "expr_loop ev tokens v0 idx = Inr (v, j) \<Longrightarrow> idx \<le> j \<and> (idx \<le> length tokens \<longrightarrow> j \<le> length tokens)"
  "parse_term ev tokens idx = Inr (v, j) \<Longrightarrow> idx < j \<and> j \<le> length tokens"
  "term_loop ev tokens v0 idx = Inr (v, j) \<Longrightarrow> idx \<le> j \<and> (idx \<le> length tokens \<longrightarrow> j \<le> length tokens)"
  "parse_factor ev tokens idx = Inr (v, j) \<Longrightarrow> idx < j \<and> j \<le> length tokens"
proof (induct ev tokens idx and ev tokens v0 idx and ev tokens idx and ev tokens v0 idx and ev tokens idx
    arbitrary: v j and v j and v j and v j and v j
    rule: parse_expr_expr_loop_parse_term_term_loop_parse_factor.induct)
  case (1 ev tokens idx)
  from "1.prems" show ?case
    by (subst (asm) parse_expr.simps) (use "1.hyps" in \<open>fastforce split: sum.splits prod.splits\<close>)
next
  case (2 ev tokens v0 idx)
  from "2.prems" show ?case
    by (subst (asm) expr_loop.simps) (use "2.hyps" in \<open>fastforce split: sum.splits prod.splits if_splits\<close>)
next
  case (3 ev tokens idx)
  from "3.prems" show ?case
    by (subst (asm) parse_term.simps) (use "3.hyps" in \<open>fastforce split: sum.splits prod.splits\<close>)
next
  case (4 ev tokens v0 idx)
  from "4.prems" show ?case
    by (subst (asm) term_loop.simps) (use "4.hyps" in \<open>fastforce split: sum.splits prod.splits if_splits\<close>)
next
  case (5 ev tokens idx)
  from "5.prems" show ?case
    by (subst (asm) parse_factor.simps) (use "5.hyps" in \<open>fastforce split: sum.splits prod.splits if_splits\<close>)
qed



lemma loop_exit_extend:
  assumes "i < length ts \<or> \<not> next_is w rest" "i \<le> length ts" "\<not> (i < length ts \<and> ts ! i = w)"
  shows "\<not> (i < length (ts @ rest) \<and> (ts @ rest) ! i = w)"
proof (cases "i < length ts")
  case True
  with assms show ?thesis by (simp add: nth_append)
next
  case False
  with assms have "i = length ts" "\<not> next_is w rest" by auto
  then show ?thesis by (cases rest) (auto simp: next_is_def nth_append)
qed

lemma parse_extend:
  "parse_expr ev tokens idx = Inr (v, j) \<Longrightarrow>
     j < length tokens \<or> (\<not> next_is ''AND'' rest \<and> \<not> next_is ''OR'' rest) \<Longrightarrow>
     parse_expr ev (tokens @ rest) idx = Inr (v, j)"
  "expr_loop ev tokens v0 idx = Inr (v, j) \<Longrightarrow> idx \<le> length tokens \<Longrightarrow>
     j < length tokens \<or> (\<not> next_is ''AND'' rest \<and> \<not> next_is ''OR'' rest) \<Longrightarrow>
     expr_loop ev (tokens @ rest) v0 idx = Inr (v, j)"
  "parse_term ev tokens idx = Inr (v, j) \<Longrightarrow>
     j < length tokens \<or> \<not> next_is ''AND'' rest \<Longrightarrow>
     parse_term ev (tokens @ rest) idx = Inr (v, j)"
  "term_loop ev tokens v0 idx = Inr (v, j) \<Longrightarrow> idx \<le> length tokens \<Longrightarrow>
     j < length tokens \<or> \<not> next_is ''AND'' rest \<Longrightarrow>
     term_loop ev (tokens @ rest) v0 idx = Inr (v, j)"
  "parse_factor ev tokens idx = Inr (v, j) \<Longrightarrow> parse_factor ev (tokens @ rest) idx = Inr (v, j)"
proof (induct ev tokens idx and ev tokens v0 idx and ev tokens idx and ev tokens v0 idx and ev tokens idx
    arbitrary: v j and v j and v j and v j and v j
    rule: parse_expr_expr_loop_parse_term_term_loop_parse_factor.induct)
  case (1 ev tokens idx)
  from "1.prems"(1) obtain v1 j1 where t: "parse_term ev tokens idx = Inr (v1, j1)"
    and l: "expr_loop ev tokens v1 j1 = Inr (v, j)"
    by (subst (asm) parse_expr.simps) (auto split: sum.splits prod.splits)
  from t have b: "j1 \<le> length tokens" using parse_progress(3) by blast
  from l have "j1 \<le> j" using parse_progress(2) by blast
  with "1.prems"(2) have c: "j1 < length tokens \<or> \<not> next_is ''AND'' rest" by auto
  from "1.hyps"(2)[OF t refl l b "1.prems"(2)] "1.hyps"(1)[OF t c] show ?case
    by (subst parse_expr.simps) simp
next
  case (2 ev tokens v0 idx)
  show ?case
  proof (cases "idx < length tokens \<and> tokens ! idx = ''OR''")
    case True
    with "2.prems"(1) obtain rhs j1 where t: "parse_term ev tokens (idx + 1) = Inr (rhs, j1)"
      and l: "expr_loop ev tokens (v0 \<or> rhs) j1 = Inr (v, j)"
      by (subst (asm) expr_loop.simps) (auto split: sum.splits prod.splits)
    from t have b: "j1 \<le> length tokens" using parse_progress(3) by blast
    from l have "j1 \<le> j" using parse_progress(2) by blast
    with "2.prems"(3) have c: "j1 < length tokens \<or> \<not> next_is ''AND'' rest" by auto
    from "2.hyps"(2)[OF True t refl l b "2.prems"(3)] "2.hyps"(1)[OF True t c] True show ?thesis
      by (subst expr_loop.simps) (simp add: nth_append)
  next
    case False
    with "2.prems"(1) have e: "v = v0" "j = idx" by (subst (asm) expr_loop.simps, simp)+
    with "2.prems"(3) have "idx < length tokens \<or> \<not> next_is ''OR'' rest" by auto
    from loop_exit_extend[OF this "2.prems"(2) False] e show ?thesis
      by (subst expr_loop.simps) auto
  qed
next
  case (3 ev tokens idx)
  from "3.prems"(1) obtain v1 j1 where t: "parse_factor ev tokens idx = Inr (v1, j1)"
    and l: "term_loop ev tokens v1 j1 = Inr (v, j)"
    by (subst (asm) parse_term.simps) (auto split: sum.splits prod.splits)
  from t have b: "j1 \<le> length tokens" using parse_progress(5) by blast
  from "3.hyps"(2)[OF t refl l b "3.prems"(2)] "3.hyps"(1)[OF t] show ?case
    by (subst parse_term.simps) simp
next
  case (4 ev tokens v0 idx)
  show ?case
  proof (cases "idx < length tokens \<and> tokens ! idx = ''AND''")
    case True
    with "4.prems"(1) obtain rhs j1 where t: "parse_factor ev tokens (idx + 1) = Inr (rhs, j1)"
      and l: "term_loop ev tokens (v0 \<and> rhs) j1 = Inr (v, j)"
      by (subst (asm) term_loop.simps) (auto split: sum.splits prod.splits)
    from t have b: "j1 \<le> length tokens" using parse_progress(5) by blast
    from "4.hyps"(2)[OF True t refl l b "4.prems"(3)] "4.hyps"(1)[OF True t] True show ?thesis
      by (subst term_loop.simps) (simp add: nth_append)
  next
    case False
    with "4.prems"(1) have e: "v = v0" "j = idx" by (subst (asm) term_loop.simps, simp)+
    with "4.prems"(3) have "idx < length tokens \<or> \<not> next_is ''AND'' rest" by auto
    from loop_exit_extend[OF this "4.prems"(2) False] e show ?thesis
      by (subst term_loop.simps) auto
  qed
next
  case (5 ev tokens idx)
  from "5.prems" have in_range: "idx < length tokens"
    by (subst (asm) parse_factor.simps) (auto split: if_splits)
  show ?case
  proof (cases "tokens ! idx = ''(''")
    case True
    with "5.prems" in_range obtain j1 where e: "parse_expr ev tokens (idx + 1) = Inr (v, j1)"
      and c: "j1 < length tokens" "tokens ! j1 = '')''" and j: "j = j1 + 1"
      by (subst (asm) parse_factor.simps) (auto split: sum.splits prod.splits if_splits)
    from "5.hyps"[OF _ True e] in_range c have "parse_expr ev (tokens @ rest) (idx + 1) = Inr (v, j1)" by simp
    with True in_range c j show ?thesis
      by (subst parse_factor.simps) (simp add: nth_append)
  next
    case False
    with "5.prems" in_range show ?thesis
      by (subst (asm) parse_factor.simps, subst parse_factor.simps) (simp add: nth_append)
  qed
qed







lemma parse_progress_eml:
  "parse_expr_eml ev tokens idx = Inr (v, j) \<Longrightarrow> idx < j \<and> j \<le> length tokens"
  "expr_loop_eml ev tokens v0 idx = Inr (v, j) \<Longrightarrow> idx \<le> j \<and> (idx \<le> length tokens \<longrightarrow> j \<le> length tokens)"
  "parse_term_eml ev tokens idx = Inr (v, j) \<Longrightarrow> idx < j \<and> j \<le> length tokens"
  "term_loop_eml ev tokens v0 idx = Inr (v, j) \<Longrightarrow> idx \<le> j \<and> (idx \<le> length tokens \<longrightarrow> j \<le> length tokens)"
  "parse_factor_eml ev tokens idx = Inr (v, j) \<Longrightarrow> idx < j \<and> j \<le> length tokens"
proof (induct ev tokens idx and ev tokens v0 idx and ev tokens idx and ev tokens v0 idx and ev tokens idx
    arbitrary: v j and v j and v j and v j and v j
    rule: parse_expr_eml_expr_loop_eml_parse_term_eml_term_loop_eml_parse_factor_eml.induct)
  case (1 ev tokens idx)
  from "1.prems" show ?case
    by (subst (asm) parse_expr_eml.simps) (use "1.hyps" in \<open>fastforce split: sum.splits prod.splits\<close>)
next
  case (2 ev tokens v0 idx)
  from "2.prems" show ?case
    by (subst (asm) expr_loop_eml.simps) (use "2.hyps" in \<open>fastforce split: sum.splits prod.splits if_splits\<close>)
next
  case (3 ev tokens idx)
  from "3.prems" show ?case
    by (subst (asm) parse_term_eml.simps) (use "3.hyps" in \<open>fastforce split: sum.splits prod.splits\<close>)
next
  case (4 ev tokens v0 idx)
  from "4.prems" show ?case
    by (subst (asm) term_loop_eml.simps) (use "4.hyps" in \<open>fastforce split: sum.splits prod.splits if_splits\<close>)
next
  case (5 ev tokens idx)
  from "5.prems" show ?case
    by (subst (asm) parse_factor_eml.simps) (use "5.hyps" in \<open>fastforce split: sum.splits prod.splits if_splits\<close>)
qed

lemma parse_extend_eml:
  "parse_expr_eml ev tokens idx = Inr (v, j) \<Longrightarrow>
     j < length tokens \<or> (\<not> next_is ''AND'' rest \<and> \<not> next_is ''OR'' rest) \<Longrightarrow>
     parse_expr_eml ev (tokens @ rest) idx = Inr (v, j)"
  "expr_loop_eml ev tokens v0 idx = Inr (v, j) \<Longrightarrow> idx \<le> length tokens \<Longrightarrow>
     j < length tokens \<or> (\<not> next_is ''AND'' rest \<and> \<not> next_is ''OR'' rest) \<Longrightarrow>
     expr_loop_eml ev (tokens @ rest) v0 idx = Inr (v, j)"
  "parse_term_eml ev tokens idx = Inr (v, j) \<Longrightarrow>
     j < length tokens \<or> \<not> next_is ''AND'' rest \<Longrightarrow>
     parse_term_eml ev (tokens @ rest) idx = Inr (v, j)"
  "term_loop_eml ev tokens v0 idx = Inr (v, j) \<Longrightarrow> idx \<le> length tokens \<Longrightarrow>
     j < length tokens \<or> \<not> next_is ''AND'' rest \<Longrightarrow>
     term_loop_eml ev (tokens @ rest) v0 idx = Inr (v, j)"
  "parse_factor_eml ev tokens idx = Inr (v, j) \<Longrightarrow> parse_factor_eml ev (tokens @ rest) idx = Inr (v, j)"
proof (induct ev tokens idx and ev tokens v0 idx and ev tokens idx and ev tokens v0 idx and ev tokens idx
    arbitrary: v j and v j and v j and v j and v j
    rule: parse_expr_eml_expr_loop_eml_parse_term_eml_term_loop_eml_parse_factor_eml.induct)
  case (1 ev tokens idx)
  from "1.prems"(1) obtain v1 j1 where t: "parse_term_eml ev tokens idx = Inr (v1, j1)"
    and l: "expr_loop_eml ev tokens v1 j1 = Inr (v, j)"
    by (subst (asm) parse_expr_eml.simps) (auto split: sum.splits prod.splits)
  from t have b: "j1 \<le> length tokens" using parse_progress_eml(3) by blast
  from l have "j1 \<le> j" using parse_progress_eml(2) by blast
  with "1.prems"(2) have c: "j1 < length tokens \<or> \<not> next_is ''AND'' rest" by auto
  from "1.hyps"(2)[OF t refl l b "1.prems"(2)] "1.hyps"(1)[OF t c] show ?case
    by (subst parse_expr_eml.simps) simp
next
  case (2 ev tokens v0 idx)
  show ?case
  proof (cases "idx < length tokens \<and> tokens ! idx = ''OR''")
    case True
    show ?thesis
    proof (cases v0)
      case v0: True
      with True "2.prems"(1) have l: "expr_loop_eml ev tokens v0 (idx + 1) = Inr (v, j)"
        by (subst (asm) expr_loop_eml.simps) simp
      from True have "idx + 1 \<le> length tokens" by simp
      from "2.hyps"(1)[OF True v0 l this "2.prems"(3)] True v0 show ?thesis
        by (subst expr_loop_eml.simps) (simp add: nth_append)
    next
      case v0: False
      with True "2.prems"(1) obtain rhs j1 where t: "parse_term_eml ev tokens (idx + 1) = Inr (rhs, j1)"
        and l: "expr_loop_eml ev tokens rhs j1 = Inr (v, j)"
        by (subst (asm) expr_loop_eml.simps) (auto split: sum.splits prod.splits)
      from t have b: "j1 \<le> length tokens" using parse_progress_eml(3) by blast
      from l have "j1 \<le> j" using parse_progress_eml(2) by blast
      with "2.prems"(3) have c: "j1 < length tokens \<or> \<not> next_is ''AND'' rest" by auto
      from "2.hyps"(3)[OF True v0 t refl l b "2.prems"(3)] "2.hyps"(2)[OF True v0 t c] True v0
      show ?thesis
        by (subst expr_loop_eml.simps) (simp add: nth_append)
    qed
  next
    case False
    with "2.prems"(1) have e: "v = v0" "j = idx" by (subst (asm) expr_loop_eml.simps, simp)+
    with "2.prems"(3) have "idx < length tokens \<or> \<not> next_is ''OR'' rest" by auto
    from loop_exit_extend[OF this "2.prems"(2) False] e show ?thesis
      by (subst expr_loop_eml.simps) auto
  qed
next
  case (3 ev tokens idx)
  from "3.prems"(1) obtain v1 j1 where t: "parse_factor_eml ev tokens idx = Inr (v1, j1)"
    and l: "term_loop_eml ev tokens v1 j1 = Inr (v, j)"
    by (subst (asm) parse_term_eml.simps) (auto split: sum.splits prod.splits)
  from t have b: "j1 \<le> length tokens" using parse_progress_eml(5) by blast
  from "3.hyps"(2)[OF t refl l b "3.prems"(2)] "3.hyps"(1)[OF t] show ?case
    by (subst parse_term_eml.simps) simp
next
  case (4 ev tokens v0 idx)
  show ?case
  proof (cases "idx < length tokens \<and> tokens ! idx = ''AND''")
    case True
    show ?thesis
    proof (cases v0)
      case v0: False
      with True "4.prems"(1) have l: "term_loop_eml ev tokens v0 (idx + 1) = Inr (v, j)"
        by (subst (asm) term_loop_eml.simps) simp
      from True have "idx + 1 \<le> length tokens" by simp
      from "4.hyps"(1)[OF True v0 l this "4.prems"(3)] True v0 show ?thesis
        by (subst term_loop_eml.simps) (simp add: nth_append)
    next
      case v0: True
      with True "4.prems"(1) obtain rhs j1 where t: "parse_factor_eml ev tokens (idx + 1) = Inr (rhs, j1)"
        and l: "term_loop_eml ev tokens rhs j1 = Inr (v, j)"
        by (subst (asm) term_loop_eml.simps) (auto split: sum.splits prod.splits)
      from t have b: "j1 \<le> length tokens" using parse_progress_eml(5) by blast
      from v0 have nv: "\<not> \<not> v0" by simp
      from "4.hyps"(3)[OF True nv t refl l b "4.prems"(3)] "4.hyps"(2)[OF True nv t] True v0
      show ?thesis
        by (subst term_loop_eml.simps) (simp add: nth_append)
    qed
  next
    case False
    with "4.prems"(1) have e: "v = v0" "j = idx" by (subst (asm) term_loop_eml.simps, simp)+
    with "4.prems"(3) have "idx < length tokens \<or> \<not> next_is ''AND'' rest" by auto
    from loop_exit_extend[OF this "4.prems"(2) False] e show ?thesis
      by (subst term_loop_eml.simps) auto
  qed
next
  case (5 ev tokens idx)
  from "5.prems" have in_range: "idx < length tokens"
    by (subst (asm) parse_factor_eml.simps) (auto split: if_splits)
  show ?case
  proof (cases "tokens ! idx = ''(''")
    case True
    with "5.prems" in_range obtain j1 where e: "parse_expr_eml ev tokens (idx + 1) = Inr (v, j1)"
      and c: "j1 < length tokens" "tokens ! j1 = '')''" and j: "j = j1 + 1"
      by (subst (asm) parse_factor_eml.simps) (auto split: sum.splits prod.splits if_splits)
    from "5.hyps"[OF _ True e] in_range c have "parse_expr_eml ev (tokens @ rest) (idx + 1) = Inr (v, j1)" by simp
    with True in_range c j show ?thesis
      by (subst parse_factor_eml.simps) (simp add: nth_append)
  next
    case False
    with "5.prems" in_range show ?thesis
      by (subst (asm) parse_factor_eml.simps, subst parse_factor_eml.simps) (simp add: nth_append)
  qed
qed

lemma tokenize_Nil_iff: "tokenize rule \<noteq> [] \<Longrightarrow> rule \<noteq> []"
  by (auto simp: tokenize_def)

lemma next_is_hd: "rest = [] \<or> (hd rest \<noteq> w) \<Longrightarrow> \<not> next_is w rest"
  by (cases rest) (auto simp: next_is_def)

















lemma precedence_pop3:
  assumes "A \<noteq> ''(''" "B \<noteq> ''(''" "C \<noteq> ''(''" "ev A = Inr a" "ev B = Inr b" "ev C = Inr c"
  shows "parse_expr ev [A, ''OR'', B, ''AND'', C] 0 = Inr (a \<or> (b \<and> c), 5)"
    and "parse_expr ev [''('', A, ''OR'', B, '')'', ''AND'', C] 0 = Inr ((a \<or> b) \<and> c, 7)"
  using assms
  by (simp_all add: parse_expr.simps expr_loop.simps parse_term.simps term_loop.simps parse_factor.simps)

lemma precedence_eml:
  assumes "A \<noteq> ''(''" "B \<noteq> ''(''" "C \<noteq> ''(''" "ev A = Inr a" "ev B = Inr b" "ev C = Inr c"
    and "B \<noteq> ''AND''" "B \<noteq> ''OR''" "C \<noteq> ''AND''" "C \<noteq> ''OR''"
  shows "\<exists>j. parse_expr_eml ev [A, ''OR'', B, ''AND'', C] 0 = Inr (a \<or> (b \<and> c), j)"
  using assms
  by (cases a; cases b) (simp_all add: parse_expr_eml.simps expr_loop_eml.simps parse_term_eml.simps term_loop_eml.simps parse_factor_eml.simps)

section \<open>Lemmas about the HTML functions and the body extraction\<close>

lemma kept_imgs_node:
  "\<not> decomposed lim n \<Longrightarrow> \<forall>a \<in> set (find_all_img_node (remove_tracking_pixels_node lim n)). \<not> is_tracking_pixel lim a"
proof (induction n)
  case (Tag name attrs children)
  then show ?case by auto
qed simp_all

lemma kept_imgs:
  "\<forall>a \<in> set (find_all_img (remove_tracking_pixels lim soup)). \<not> is_tracking_pixel lim a"
  using kept_imgs_node by (auto simp: find_all_img_def remove_tracking_pixels_def)

lemma exact_imgs_list:
  assumes "\<And>n. n \<in> set ns \<Longrightarrow> img_is_void n"
    and "\<And>n. n \<in> set ns \<Longrightarrow> \<not> decomposed lim n \<Longrightarrow>
           find_all_img_node (remove_tracking_pixels_node lim n)
             = filter (\<lambda>a. \<not> is_tracking_pixel lim a) (find_all_img_node n)"
  shows "concat (map find_all_img_node (map (remove_tracking_pixels_node lim) (filter (\<lambda>n. \<not> decomposed lim n) ns)))
           = filter (\<lambda>a. \<not> is_tracking_pixel lim a) (concat (map find_all_img_node ns))"
  using assms
proof (induction ns)
  case Nil
  show ?case by simp
next
  case (Cons n ns)
  show ?case
  proof (cases "decomposed lim n")
    case True
    then obtain attrs children where n: "n = Tag ''img'' attrs children" and t: "is_tracking_pixel lim attrs"
      by (cases n) auto
    from Cons.prems(1)[of n] n have "children = []" by simp
    with n t have "filter (\<lambda>a. \<not> is_tracking_pixel lim a) (find_all_img_node n) = []" by simp
    with True Cons show ?thesis by simp
  next
    case False
    with Cons show ?thesis by simp
  qed
qed

lemma exact_imgs_node:
  "img_is_void n \<Longrightarrow> \<not> decomposed lim n \<Longrightarrow>
     find_all_img_node (remove_tracking_pixels_node lim n)
       = filter (\<lambda>a. \<not> is_tracking_pixel lim a) (find_all_img_node n)"
proof (induction n)
  case (Tag name attrs children)
  have "concat (map find_all_img_node (map (remove_tracking_pixels_node lim) (filter (\<lambda>n. \<not> decomposed lim n) children)))
           = filter (\<lambda>a. \<not> is_tracking_pixel lim a) (concat (map find_all_img_node children))"
    using Tag by (intro exact_imgs_list) auto
  with Tag.prems show ?case by auto
qed simp_all

lemma exact_imgs:
  assumes "\<forall>n \<in> set soup. img_is_void n"
  shows "find_all_img (remove_tracking_pixels lim soup)
           = filter (\<lambda>a. \<not> is_tracking_pixel lim a) (find_all_img soup)"
  unfolding find_all_img_def remove_tracking_pixels_def
  using assms by (intro exact_imgs_list) (auto simp: exact_imgs_node)

lemma set_re_sub_empty: "set (re_sub m [] s) \<subseteq> set s"
proof (induction m "[]::string" s rule: re_sub.induct)
  case (1 m)
  show ?case by simp
next
  case (2 m c cs)
  show ?case
  proof (cases "m (c # cs)")
    case None
    with 2 show ?thesis by auto
  next
    case (Some n)
    with 2 have "set (re_sub m [] (drop (n - 1) cs)) \<subseteq> set (drop (n - 1) cs)" by simp
    moreover have "set (drop (n - 1) cs) \<subseteq> set cs" by (rule set_drop_subset)
    ultimately show ?thesis using Some by auto
  qed
qed

lemma match_tag_None_iff:
  "match_tag s = None \<longleftrightarrow>
     (case s of [] \<Rightarrow> True
      | c # r \<Rightarrow> c \<noteq> CHR ''<'' \<or> r = [] \<or> hd r = CHR ''>'' \<or> CHR ''>'' \<notin> set r)"
proof (cases s)
  case Nil
  then show ?thesis by (simp add: match_tag_def)
next
  case (Cons c r)
  have a: "takeWhile (\<lambda>x. x \<noteq> CHR ''>'') r = [] \<longleftrightarrow> r = [] \<or> hd r = CHR ''>''"
    by (cases r) auto
  have b: "length (takeWhile (\<lambda>x. x \<noteq> CHR ''>'') r) < length r \<longleftrightarrow> CHR ''>'' \<in> set r"
    by (induction r) auto
  show ?thesis using Cons a b by (auto simp: match_tag_def Let_def)
qed

lemma no_tag_left:
  "match_tag (drop i (re_sub match_tag [] s)) = None"
proof (induction match_tag "[]::string" s arbitrary: i rule: re_sub.induct)
  case 1
  show ?case by (simp add: match_tag_def)
next
  case (2 c cs)
  show ?case
  proof (cases "match_tag (c # cs)")
    case (Some n)
    with 2 show ?thesis by simp
  next
    case None
    show ?thesis
    proof (cases i)
      case (Suc j)
      with 2 None show ?thesis by simp
    next
      case 0
      have "match_tag (c # re_sub match_tag [] cs) = None"
      proof (cases "c = CHR ''<''")
        case False
        then show ?thesis by (simp add: match_tag_def)
      next
        case True
        from None True have d: "cs = [] \<or> hd cs = CHR ''>'' \<or> CHR ''>'' \<notin> set cs"
          by (simp add: match_tag_None_iff)
        then have "re_sub match_tag [] cs = [] \<or> hd (re_sub match_tag [] cs) = CHR ''>''
            \<or> CHR ''>'' \<notin> set (re_sub match_tag [] cs)"
        proof (elim disjE)
          assume "cs = []" then show ?thesis by simp
        next
          assume h: "hd cs = CHR ''>''"
          show ?thesis
          proof (cases cs)
            case Nil then show ?thesis by simp
          next
            case (Cons x xs)
            with h have "match_tag cs = None" by (simp add: match_tag_def)
            with Cons h show ?thesis by simp
          qed
        next
          assume "CHR ''>'' \<notin> set cs"
          with set_re_sub_empty[of match_tag cs] show ?thesis by auto
        qed
        with True show ?thesis by (simp add: match_tag_None_iff)
      qed
      with None 0 show ?thesis by simp
    qed
  qed
qed

lemma foldl_walk:
  "foldl (walk_step cd) (tb, hr) parts =
     (case tb of
        Some s \<Rightarrow> Some s
      | None \<Rightarrow> map_option (\<lambda>p. strip (decode_part cd p))
          (find (\<lambda>p. content_disposition p \<noteq> Some ''attachment'' \<and> content_type p = ''text/plain'') parts),
      case hr of
        Some h \<Rightarrow> Some h
      | None \<Rightarrow> map_option (decode_part cd)
          (find (\<lambda>p. content_disposition p \<noteq> Some ''attachment'' \<and> content_type p = ''text/html'') parts))"
proof (induction parts arbitrary: tb hr)
  case Nil
  show ?case by (simp split: option.splits)
next
  case (Cons p ps)
  obtain tb' hr' where w: "walk_step cd (tb, hr) p = (tb', hr')" by fastforce
  have "foldl (walk_step cd) (tb, hr) (p # ps) = foldl (walk_step cd) (tb', hr') ps"
    by (simp add: w)
  with Cons[of tb' hr'] w show ?case
    by (auto simp: walk_step_def Let_def split: option.splits if_splits)
qed

lemma strip_unchanged:
  assumes "s \<noteq> []" "\<not> is_space (hd s)" "\<not> is_space (last s)"
  shows "strip s = s"
proof -
  from assms have "dropWhile is_space s = s" by (cases s) auto
  moreover from assms have "dropWhile is_space (rev s) = rev s"
    by (cases "rev s") (auto simp: hd_rev)
  ultimately show ?thesis by (simp add: strip_def)
qed

section \<open>Properties\<close>

text \<open>
  C1. The two filters are claimed to return the same value and to raise under the same
  conditions. They do not: on the well-formed rule \<open>A AND B OR C\<close> with \<open>A\<close> false and \<open>C\<close>
  true the POP3 filter returns true, while the EML filter skips \<open>B\<close> without parsing it, stops
  at \<open>B\<close> and returns false. The two lemmas after the theorem record two more differences:
  a lower-case \<open>subject:/../\<close> token and a dangling \<open>OR\<close> after a true value.
\<close>

theorem engines_disagree:
  "parse_and_eval example_lib ''SUBJECT:/a/ AND SUBJECT:/b/ OR SUBJECT:/c/'' ''c'' [] [] [] None = Inr True
   \<and> parse_and_eval_eml example_lib ''SUBJECT:/a/ AND SUBJECT:/b/ OR SUBJECT:/c/'' ''c'' [] [] [] None = Inr False"
  by code_simp

lemma engines_disagree_lowercase_subject:
  "parse_and_eval example_lib ''subject:/c/'' ''c'' [] [] [] None = Inl (UnexpectedToken ''subject:/c/'')
   \<and> parse_and_eval_eml example_lib ''subject:/c/'' ''c'' [] [] [] None = Inr True"
  by code_simp

lemma engines_disagree_dangling_or:
  "parse_and_eval example_lib ''SUBJECT:/a/ OR'' ''a'' [] [] [] None = Inl UnexpectedEnd
   \<and> parse_and_eval_eml example_lib ''SUBJECT:/a/ OR'' ''a'' [] [] [] None = Inr True
   \<and> main_filter_eml example_lib ''SUBJECT:/a/ OR'' ''a'' [] [] [] None"
  by code_simp




text \<open>
  C3. \<open>(A OR B) AND C\<close> with \<open>A\<close> true and \<open>B\<close>, \<open>C\<close> false is claimed to evaluate to false.
  The POP3 filter returns false; the EML filter does not parse \<open>B\<close> after the true \<open>A\<close>, finds
  \<open>B\<close> where it expects the closing parenthesis, and raises. (\<open>precedence_pop3\<close> and
  \<open>precedence_eml\<close> above give the values of \<open>A OR B AND C\<close> in both filters and of the
  parenthesised rule in the POP3 filter, for all predicates.)
\<close>

theorem parenthesised_or_raises_eml:
  "parse_and_eval example_lib ''(SUBJECT:/a/ OR SUBJECT:/b/) AND SUBJECT:/c/'' ''a'' [] [] [] None = Inr False
   \<and> parse_and_eval_eml example_lib ''(SUBJECT:/a/ OR SUBJECT:/b/) AND SUBJECT:/c/'' ''a'' [] [] [] None
       = Inl MissingParen"
  by code_simp

text \<open>
  C4. A \<open>DATE\<close> predicate is false for a message without a timestamp: whatever the token, its
  comparator and its right-hand side, \<open>eval_date_token\<close> returns \<open>False\<close> when \<open>mail_dt\<close> is
  \<open>None\<close>, and it does so without consulting the clock or the date parser.
\<close>

theorem eval_date_token_no_timestamp:
  "eval_date_token lib token None = Inr False"
  by (simp add: eval_date_token_def split: option.splits prod.splits)



text \<open>
  The claim as stated fails. The repetition count of \<open>a{99999999999}\<close> is too large for \<open>re\<close>,
  which raises \<open>OverflowError\<close>; the \<open>try\<close> around the compilation catches \<open>re.error\<close> only,
  so \<open>parse_and_eval\<close> raises. And the predicate \<open>subject:/[/\<close>, which the tokenizer accepts
  in lower case, raises \<open>Unexpected token\<close> before its pattern is looked at. In the EML file
  the first rule raises as well, and the second evaluates to false.
\<close>

theorem invalid_regex_raises:
  "tokenize ''SUBJECT:/a{99999999999}/'' = [''SUBJECT:/a{99999999999}/'']
   \<and> parse_and_eval example_lib ''SUBJECT:/a{99999999999}/'' ''a'' [] [] [] None = Inl RegexException
   \<and> tokenize ''subject:/[/'' = [''subject:/[/'']
   \<and> parse_and_eval example_lib ''subject:/[/'' ''a'' [] [] [] None
       = Inl (UnexpectedToken ''subject:/[/'')"
  by code_simp

lemma invalid_regex_eml:
  "parse_and_eval_eml example_lib ''SUBJECT:/a{99999999999}/'' ''a'' [] [] [] None = Inl RegexException
   \<and> parse_and_eval_eml example_lib ''subject:/[/'' ''a'' [] [] [] None = Inr False"
  by code_simp

text \<open>
  C6 (as amended). With BeautifulSoup, \<open>sanitize_html\<close> serializes, and \<open>html_to_text\<close>
  reads the text of, the parsed tree without its tracking pixels: no \<open>img\<close> element is left
  whose width and height both convert to integers (a missing one counting as 0) with one of
  them non-zero and at most 1; where \<open>img\<close> elements have no children, exactly the other
  \<open>img\<close> elements are left, in their order, among them every one with a width or height that
  does not convert. Without BeautifulSoup \<open>sanitize_html\<close> returns its input unchanged, and
  \<open>html_to_text\<close> returns a text from which every tag was removed before unescaping.
  \<open>lim\<close> is the interpreter's limit on integer literals.
\<close>

theorem tracking_pixels_removed:
  "(BeautifulSoup lib = Some bs \<and> html \<noteq> [] \<longrightarrow>
       sanitize_html lib html
         = soup_str bs (remove_tracking_pixels (int_max_str_digits lib) (soup_parse bs html))
     \<and> html_to_text lib html
         = strip (unescape lib (get_text [CHR 0x0A]
             (remove_tracking_pixels (int_max_str_digits lib) (soup_parse bs html)))))
   \<and> (\<forall>a \<in> set (find_all_img (remove_tracking_pixels lim soup)). \<not> is_tracking_pixel lim a)
   \<and> ((\<forall>n \<in> set soup. img_is_void n) \<longrightarrow>
        find_all_img (remove_tracking_pixels lim soup)
          = filter (\<lambda>a. \<not> is_tracking_pixel lim a) (find_all_img soup))
   \<and> (py_int lim (attr_get attrs ''width'' ''0'') = None
        \<or> py_int lim (attr_get attrs ''height'' ''0'') = None
        \<longrightarrow> \<not> is_tracking_pixel lim attrs)
   \<and> (py_int lim (attr_get attrs' ''width'' ''0'') = Some w
        \<and> py_int lim (attr_get attrs' ''height'' ''0'') = Some h
        \<longrightarrow> is_tracking_pixel lim attrs' = ((w \<noteq> 0 \<and> w \<le> 1) \<or> (h \<noteq> 0 \<and> h \<le> 1)))
   \<and> (BeautifulSoup lib' = None \<and> html' \<noteq> [] \<longrightarrow>
        sanitize_html lib' html' = html'
        \<and> (\<exists>text. html_to_text lib' html' = strip (unescape lib' text)
              \<and> (\<forall>i. match_tag (drop i text) = None)))"
proof (intro conjI impI)
  assume a: "BeautifulSoup lib = Some bs \<and> html \<noteq> []"
  then show "sanitize_html lib html
      = soup_str bs (remove_tracking_pixels (int_max_str_digits lib) (soup_parse bs html))"
    by (simp add: sanitize_html_def)
  from a show "html_to_text lib html
         = strip (unescape lib (get_text [CHR 0x0A]
             (remove_tracking_pixels (int_max_str_digits lib) (soup_parse bs html))))"
    by (simp add: html_to_text_def)
next
  show "\<forall>a \<in> set (find_all_img (remove_tracking_pixels lim soup)). \<not> is_tracking_pixel lim a"
    by (rule kept_imgs)
next
  assume "\<forall>n \<in> set soup. img_is_void n"
  then show "find_all_img (remove_tracking_pixels lim soup)
          = filter (\<lambda>a. \<not> is_tracking_pixel lim a) (find_all_img soup)"
    by (rule exact_imgs)
next
  assume "py_int lim (attr_get attrs ''width'' ''0'') = None
        \<or> py_int lim (attr_get attrs ''height'' ''0'') = None"
  then show "\<not> is_tracking_pixel lim attrs"
    by (auto simp: is_tracking_pixel_def split: option.splits)
next
  assume "py_int lim (attr_get attrs' ''width'' ''0'') = Some w
        \<and> py_int lim (attr_get attrs' ''height'' ''0'') = Some h"
  then show "is_tracking_pixel lim attrs' = ((w \<noteq> 0 \<and> w \<le> 1) \<or> (h \<noteq> 0 \<and> h \<le> 1))"
    by (simp add: is_tracking_pixel_def)
next
  assume a: "BeautifulSoup lib' = None \<and> html' \<noteq> []"
  then show "sanitize_html lib' html' = html'" by (simp add: sanitize_html_def)
  let ?t = "re_sub match_tag [] (re_sub match_p_close [CHR 0x0A, CHR 0x0A]
              (re_sub match_br [CHR 0x0A] (re_sub match_script_style [] html')))"
  from a have "html_to_text lib' html' = strip (unescape lib' ?t)"
    by (simp add: html_to_text_def Let_def)
  moreover have "\<forall>i. match_tag (drop i ?t) = None" using no_tag_left by blast
  ultimately show "\<exists>text. html_to_text lib' html' = strip (unescape lib' text)
              \<and> (\<forall>i. match_tag (drop i text) = None)" by blast
qed

theorem tracking_pixels_removed_witness:
  "sanitize_html with_parser ''<img width=\"1\" height=\"1\" src=\"x\">'' = []
   \<and> html_to_text with_parser ''<img width=\"1\" height=\"1\" src=\"x\">'' = []
   \<and> find_all_img (remove_tracking_pixels 4300
        [Tag ''div'' []
          [Tag ''img'' [(''width'', ''1''), (''height'', ''1'')] [],
           Tag ''img'' [(''width'', ''100%''), (''height'', ''1'')] [],
           Tag ''img'' [(''width'', ''600''), (''height'', ''-1'')] [],
           Tag ''img'' [(''src'', ''y'')] [], Text ''a'']])
       = [[(''width'', ''100%''), (''height'', ''1'')], [(''src'', ''y'')]]
   \<and> \<not> is_tracking_pixel 4300 [(''width'', ''100%''), (''height'', ''1'')]
   \<and> is_tracking_pixel 4300 [(''width'', ''1''), (''height'', ''1'')]
   \<and> sanitize_html no_parser ''<img width=\"1\" height=\"1\" src=\"x\">''
       = ''<img width=\"1\" height=\"1\" src=\"x\">''
   \<and> html_to_text no_parser ''<p>a<img width=\"1\" height=\"1\" src=\"x\">b</p>'' = ''ab''"
proof -
  let ?pixel = "''<img width=\"1\" height=\"1\" src=\"x\">''"
  let ?soup = "[Tag ''div'' []
          [Tag ''img'' [(''width'', ''1''), (''height'', ''1'')] [],
           Tag ''img'' [(''width'', ''100%''), (''height'', ''1'')] [],
           Tag ''img'' [(''width'', ''600''), (''height'', ''-1'')] [],
           Tag ''img'' [(''src'', ''y'')] [], Text ''a'']]"
  have b: "BeautifulSoup with_parser = Some example_bs4 \<and> ?pixel \<noteq> []" by (simp add: with_parser_def)
  have p: "soup_str example_bs4
      (remove_tracking_pixels (int_max_str_digits with_parser) (soup_parse example_bs4 ?pixel)) = []"
    by code_simp
  have q: "strip (unescape with_parser (get_text [CHR 0x0A]
      (remove_tracking_pixels (int_max_str_digits with_parser) (soup_parse example_bs4 ?pixel)))) = []"
    by code_simp
  have v: "\<forall>n \<in> set ?soup. img_is_void n" by simp
  have f: "filter (\<lambda>a. \<not> is_tracking_pixel 4300 a) (find_all_img ?soup)
            = [[(''width'', ''100%''), (''height'', ''1'')], [(''src'', ''y'')]]" by code_simp
  have u: "py_int 4300 (attr_get [(''width'', ''100%''), (''height'', ''1'')] ''width'' ''0'') = None"
    by code_simp
  have w: "py_int 4300 (attr_get [(''width'', ''1''), (''height'', ''1'')] ''width'' ''0'') = Some 1
         \<and> py_int 4300 (attr_get [(''width'', ''1''), (''height'', ''1'')] ''height'' ''0'') = Some 1"
    by code_simp
  have n: "BeautifulSoup no_parser = None \<and> ?pixel \<noteq> []" by (simp add: no_parser_def)
  have t: "html_to_text no_parser ''<p>a<img width=\"1\" height=\"1\" src=\"x\">b</p>'' = ''ab''" by code_simp
  from tracking_pixels_removed[of with_parser example_bs4 ?pixel 4300 ?soup
      "[(''width'', ''100%''), (''height'', ''1'')]" "[(''width'', ''1''), (''height'', ''1'')]" 1 1
      no_parser ?pixel] b p q v f u w n
  have "sanitize_html with_parser ?pixel = []"
    and "html_to_text with_parser ?pixel = []"
    and "find_all_img (remove_tracking_pixels 4300 ?soup)
       = [[(''width'', ''100%''), (''height'', ''1'')], [(''src'', ''y'')]]"
    and "\<not> is_tracking_pixel 4300 [(''width'', ''100%''), (''height'', ''1'')]"
    and "is_tracking_pixel 4300 [(''width'', ''1''), (''height'', ''1'')]"
    and "sanitize_html no_parser ?pixel = ?pixel"
    by simp_all
  with t show ?thesis by simp
qed

text \<open>
  The claim as stated fails: without BeautifulSoup the sanitized HTML still holds the 1 by 1
  image; a declared width and height of 0 count as missing, so that image is kept; and an
  image whose width does not convert is kept whatever its height is. The lemma after it
  records what \<open>int\<close> accepts around the digits: a blank or a no-break space, but not the
  unit separator that \<open>str.strip\<close> would remove, so that image is kept as well.
\<close>

theorem tracking_pixel_kept:
  "sanitize_html no_parser ''<img width=\"1\" height=\"1\" src=\"x\">''
     = ''<img width=\"1\" height=\"1\" src=\"x\">''
   \<and> remove_tracking_pixels 4300 [Tag ''img'' [(''width'', ''0''), (''height'', ''0''), (''src'', ''x'')] []]
     = [Tag ''img'' [(''width'', ''0''), (''height'', ''0''), (''src'', ''x'')] []]
   \<and> remove_tracking_pixels 4300 [Tag ''img'' [(''width'', ''100%''), (''height'', ''1''), (''src'', ''x'')] []]
     = [Tag ''img'' [(''width'', ''100%''), (''height'', ''1''), (''src'', ''x'')] []]"
  by code_simp

lemma py_int_white_space:
  "py_int 4300 [CHR 0x20, CHR ''1'', CHR 0xA0] = Some 1
   \<and> py_int 4300 [CHR 0x1F, CHR ''1''] = None
   \<and> py_int 4300 ''+1_0'' = Some 10
   \<and> py_int 4300 ''1__0'' = None
   \<and> remove_tracking_pixels 4300 [Tag ''img'' [(''width'', [CHR 0x1F, CHR ''1'']), (''height'', ''1'')] []]
     = [Tag ''img'' [(''width'', [CHR 0x1F, CHR ''1'']), (''height'', ''1'')] []]"
  by code_simp

text \<open>
  C7 (as amended). For a multipart message the text body is the stripped content of the first
  part that is no attachment and has type \<open>text/plain\<close>, and the HTML body the content of the
  first such part of type \<open>text/html\<close>; later parts of the same type are ignored. The text
  field is the text body when that is not empty; otherwise the HTML body converted by
  \<open>html_to_text\<close> when there is a non-empty one; otherwise empty. The witness has the message
  with \<open>Hello\<close> and \<open><p>Hi</p>\<close>, whose text field is \<open>Hello\<close>.
\<close>

theorem body_extraction:
  "extract_bodies cd (Multipart parts) =
     (map_option (\<lambda>p. strip (decode_part cd p))
        (find (\<lambda>p. content_disposition p \<noteq> Some ''attachment'' \<and> content_type p = ''text/plain'') parts),
      map_option (decode_part cd)
        (find (\<lambda>p. content_disposition p \<noteq> Some ''attachment'' \<and> content_type p = ''text/html'') parts))
   \<and> (fst (extract_bodies cd msg) = Some s \<and> s \<noteq> [] \<longrightarrow> text_field cd lib msg = s)
   \<and> ((fst (extract_bodies cd msg) = None \<or> fst (extract_bodies cd msg) = Some [])
        \<and> snd (extract_bodies cd msg) = Some h \<and> h \<noteq> [] \<longrightarrow>
          text_field cd lib msg = html_to_text lib h)
   \<and> ((fst (extract_bodies cd msg) = None \<or> fst (extract_bodies cd msg) = Some [])
        \<and> (snd (extract_bodies cd msg) = None \<or> snd (extract_bodies cd msg) = Some []) \<longrightarrow>
          text_field cd lib msg = [])"
proof (intro conjI impI)
  show "extract_bodies cd (Multipart parts) =
     (map_option (\<lambda>p. strip (decode_part cd p))
        (find (\<lambda>p. content_disposition p \<noteq> Some ''attachment'' \<and> content_type p = ''text/plain'') parts),
      map_option (decode_part cd)
        (find (\<lambda>p. content_disposition p \<noteq> Some ''attachment'' \<and> content_type p = ''text/html'') parts))"
    by (simp add: extract_bodies_def foldl_walk)
next
  assume "fst (extract_bodies cd msg) = Some s \<and> s \<noteq> []"
  then show "text_field cd lib msg = s"
    by (cases "extract_bodies cd msg") (auto simp: text_field_def)
next
  assume "(fst (extract_bodies cd msg) = None \<or> fst (extract_bodies cd msg) = Some [])
        \<and> snd (extract_bodies cd msg) = Some h \<and> h \<noteq> []"
  then show "text_field cd lib msg = html_to_text lib h"
    by (cases "extract_bodies cd msg") (auto simp: text_field_def)
next
  assume "(fst (extract_bodies cd msg) = None \<or> fst (extract_bodies cd msg) = Some [])
        \<and> (snd (extract_bodies cd msg) = None \<or> snd (extract_bodies cd msg) = Some [])"
  then show "text_field cd lib msg = []"
    by (cases "extract_bodies cd msg") (auto simp: text_field_def)
qed

theorem body_extraction_witness:
  "extract_bodies ascii_codecs
      (Multipart [container, text_part ''text/plain'' ''Hello'', text_part ''text/html'' ''<p>Hi</p>'',
                  text_part ''text/plain'' ''Later''])
     = (Some ''Hello'', Some ''<p>Hi</p>'')
   \<and> text_field ascii_codecs no_parser
      (Multipart [container, text_part ''text/plain'' ''Hello'', text_part ''text/html'' ''<p>Hi</p>'',
                  text_part ''text/plain'' ''Later'']) = ''Hello''
   \<and> extract_bodies ascii_codecs (Multipart [container, text_part ''text/html'' ''<p>Hi</p>''])
     = (None, Some ''<p>Hi</p>'')
   \<and> text_field ascii_codecs no_parser (Multipart [container, text_part ''text/html'' ''<p>Hi</p>''])
     = html_to_text no_parser ''<p>Hi</p>''
   \<and> extract_bodies ascii_codecs (Multipart [container]) = (None, None)
   \<and> text_field ascii_codecs no_parser (Multipart [container]) = []"
proof -
  let ?m1 = "Multipart [container, text_part ''text/plain'' ''Hello'', text_part ''text/html'' ''<p>Hi</p>'',
                  text_part ''text/plain'' ''Later'']"
  let ?m2 = "Multipart [container, text_part ''text/html'' ''<p>Hi</p>'']"
  let ?m3 = "Multipart [container]"
  have e1: "extract_bodies ascii_codecs ?m1 = (Some ''Hello'', Some ''<p>Hi</p>'')" by code_simp
  have e2: "extract_bodies ascii_codecs ?m2 = (None, Some ''<p>Hi</p>'')" by code_simp
  have e3: "extract_bodies ascii_codecs ?m3 = (None, None)" by code_simp
  from body_extraction[of ascii_codecs "[]" ?m1 "''Hello''" no_parser "[]"] e1
  have a: "text_field ascii_codecs no_parser ?m1 = ''Hello''" by simp
  from body_extraction[of ascii_codecs "[]" ?m2 "[]" no_parser "''<p>Hi</p>''"] e2
  have b: "text_field ascii_codecs no_parser ?m2 = html_to_text no_parser ''<p>Hi</p>''" by simp
  from body_extraction[of ascii_codecs "[]" ?m3 "[]" no_parser "[]"] e3
  have c: "text_field ascii_codecs no_parser ?m3 = []" by simp
  from a b c e1 e2 e3 show ?thesis by simp
qed

text \<open>
  The claim as stated fails: the conversion is also applied when a plain-text part exists but
  is empty after stripping. (The last lemma records that the branch for a message that is not
  multipart does not look at the disposition.)
\<close>

theorem blank_plain_part_uses_html:
  "extract_bodies ascii_codecs
      (Multipart [container, text_part ''text/plain'' ''  '', text_part ''text/html'' ''<p>Hi</p>''])
     = (Some [], Some ''<p>Hi</p>'')
   \<and> text_field ascii_codecs no_parser
      (Multipart [container, text_part ''text/plain'' ''  '', text_part ''text/html'' ''<p>Hi</p>''])
     = ''Hi''"
  by code_simp

lemma single_part_attachment_is_taken:
  "extract_bodies cd (Single \<lparr>content_disposition = Some ''attachment'', content_type = ''text/plain'',
      payload = Some data, content_charset = cs\<rparr>)
     = (Some (strip (decode_part cd \<lparr>content_disposition = Some ''attachment'',
          content_type = ''text/plain'', payload = Some data, content_charset = cs\<rparr>)), None)"
  by (simp add: extract_bodies_def)





lemma misspelled_keyword_tokens:
  "tokenize ''SUBJECT:/a/ FORM:/b/ SUBJECT:/c/'' = [''SUBJECT:/a/'', ''OR'', ''SUBJECT:/c/'']"
  by code_simp

lemma date_token_absorbs_neighbours:
  "tokenize ''DATE>x OR SUBJECT:/a/'' = [''DATE>x'', ''OR'', ''SUBJECT:/a/'']
   \<and> tokenize ''DATE>xORSUBJECT:/a/'' = [''DATE>xORSUBJECT:/a/'']
   \<and> parse_and_eval example_lib ''DATE>x OR SUBJECT:/a/'' ''a'' [] [] [] None = Inr True
   \<and> parse_and_eval example_lib ''DATE>xORSUBJECT:/a/'' ''a'' [] [] [] None = Inr False"
  by code_simp

text \<open>
  C9 (as amended). The identity key is the \<open>Message-Id\<close> header value with surrounding white
  space stripped, when that is not empty, hence the value itself when it neither starts nor
  ends with white space; otherwise it is \<open>SHA1-\<close> followed by the digest of the raw bytes,
  which differs from every text that starts with \<open><\<close>, as a message identifier does.
\<close>

theorem make_uidl_for_eml_key:
  "(strip (message_id_header msg_get) \<noteq> [] \<longrightarrow>
      make_uidl_for_eml sha1_hexdigest msg_bytes msg_get = strip (message_id_header msg_get))
   \<and> (message_id_header msg_get \<noteq> [] \<and> \<not> is_space (hd (message_id_header msg_get))
        \<and> \<not> is_space (last (message_id_header msg_get)) \<longrightarrow>
      make_uidl_for_eml sha1_hexdigest msg_bytes msg_get = message_id_header msg_get)
   \<and> (strip (message_id_header msg_get) = [] \<longrightarrow>
      make_uidl_for_eml sha1_hexdigest msg_bytes msg_get = ''SHA1-'' @ sha1_hexdigest msg_bytes
      \<and> (\<forall>m. startswith ''<'' m \<longrightarrow> make_uidl_for_eml sha1_hexdigest msg_bytes msg_get \<noteq> m))"
proof (intro conjI impI)
  assume "strip (message_id_header msg_get) \<noteq> []"
  then show "make_uidl_for_eml sha1_hexdigest msg_bytes msg_get = strip (message_id_header msg_get)"
    by (simp add: make_uidl_for_eml_def)
next
  assume a: "message_id_header msg_get \<noteq> [] \<and> \<not> is_space (hd (message_id_header msg_get))
        \<and> \<not> is_space (last (message_id_header msg_get))"
  then have "strip (message_id_header msg_get) = message_id_header msg_get"
    by (simp add: strip_unchanged)
  with a show "make_uidl_for_eml sha1_hexdigest msg_bytes msg_get = message_id_header msg_get"
    by (simp add: make_uidl_for_eml_def)
next
  assume e: "strip (message_id_header msg_get) = []"
  then show k: "make_uidl_for_eml sha1_hexdigest msg_bytes msg_get = ''SHA1-'' @ sha1_hexdigest msg_bytes"
    by (simp add: make_uidl_for_eml_def)
  show "\<forall>m. startswith ''<'' m \<longrightarrow> make_uidl_for_eml sha1_hexdigest msg_bytes msg_get \<noteq> m"
    unfolding k by (auto simp: startswith_def)
qed

theorem make_uidl_for_eml_key_witness:
  "make_uidl_for_eml empty_digest [] (map_of [(''Message-Id'', ''<id-1@example.org>'')])
     = ''<id-1@example.org>''
   \<and> make_uidl_for_eml empty_digest [] (map_of [(''Subject'', ''x'')])
     = ''SHA1-da39a3ee5e6b4b0d3255bfef95601890afd80709''
   \<and> make_uidl_for_eml empty_digest [] (map_of [(''Subject'', ''x'')]) \<noteq> ''<id-1@example.org>''"
proof -
  let ?g1 = "map_of [(''Message-Id'', ''<id-1@example.org>'')]"
  let ?g2 = "map_of [(''Subject'', ''x'')] :: string \<Rightarrow> string option"
  have h1: "message_id_header ?g1 = ''<id-1@example.org>''" by code_simp
  have s1: "strip (message_id_header ?g1) = ''<id-1@example.org>''" by code_simp
  have s2: "strip (message_id_header ?g2) = []" by code_simp
  have d: "empty_digest [] = ''da39a3ee5e6b4b0d3255bfef95601890afd80709''" by (simp add: empty_digest_def)
  have sp: "\<not> is_space (CHR ''<'')" "\<not> is_space (CHR ''>'')" by (simp_all add: is_space_def)
  have sw: "startswith ''<'' ''<id-1@example.org>''" by (simp add: startswith_def)
  from make_uidl_for_eml_key[of ?g1 empty_digest "[]"] h1 s1 sp
  have a: "make_uidl_for_eml empty_digest [] ?g1 = ''<id-1@example.org>''" by simp
  from make_uidl_for_eml_key[of ?g2 empty_digest "[]"] s2 d sw
  have b: "make_uidl_for_eml empty_digest [] ?g2 = ''SHA1-da39a3ee5e6b4b0d3255bfef95601890afd80709''"
    and c: "make_uidl_for_eml empty_digest [] ?g2 \<noteq> ''<id-1@example.org>''" by auto
  from a b c show ?thesis by simp
qed

text \<open>
  The claim as stated fails: a header value that ends with a blank is not returned verbatim.
\<close>

theorem message_id_is_stripped:
  "message_id_header (map_of [(''Message-Id'', ''<id-1@example.org> '')]) = ''<id-1@example.org> ''
   \<and> make_uidl_for_eml empty_digest [] (map_of [(''Message-Id'', ''<id-1@example.org> '')])
       = ''<id-1@example.org>''"
  by code_simp


text \<open>
  C10. \<open>parse_and_eval\<close> does not require all tokens to be consumed. In both filters: when
  the leading tokens \<open>ts\<close> of a rule parse as an expression with value \<open>v\<close>, and the remaining
  tokens are none or start with anything but the exact strings \<open>AND\<close> and \<open>OR\<close>, the rule
  evaluates to \<open>v\<close> without an error. The lemmas after the witness are the cases of a
  lower-case operator and of a second predicate without an operator.
\<close>

theorem trailing_tokens_ignored:
  assumes "tokenize rule = ts @ rest"
    and "rest = [] \<or> (hd rest \<noteq> ''AND'' \<and> hd rest \<noteq> ''OR'')"
  shows "(parse_expr (factor_predicate lib subject from_addrs to_addrs cc_addrs mail_dt) ts 0 = Inr (v, j)
            \<longrightarrow> parse_and_eval lib rule subject from_addrs to_addrs cc_addrs mail_dt = Inr v)
       \<and> (parse_expr_eml (factor_predicate_eml lib subject from_addrs to_addrs cc_addrs mail_dt) ts 0 = Inr (v', j')
            \<longrightarrow> parse_and_eval_eml lib rule subject from_addrs to_addrs cc_addrs mail_dt = Inr v')"
proof (intro conjI impI)
  from assms(2) have n: "\<not> next_is ''AND'' rest \<and> \<not> next_is ''OR'' rest"
    using next_is_hd by blast
  {
    assume p: "parse_expr (factor_predicate lib subject from_addrs to_addrs cc_addrs mail_dt) ts 0 = Inr (v, j)"
    then have "ts \<noteq> []" using parse_progress(1) by fastforce
    moreover from parse_extend(1)[OF p] n
    have "parse_expr (factor_predicate lib subject from_addrs to_addrs cc_addrs mail_dt) (ts @ rest) 0 = Inr (v, j)"
      by simp
    ultimately show "parse_and_eval lib rule subject from_addrs to_addrs cc_addrs mail_dt = Inr v"
      using assms(1) by (simp add: parse_and_eval_def)
  }
  {
    assume p: "parse_expr_eml (factor_predicate_eml lib subject from_addrs to_addrs cc_addrs mail_dt) ts 0 = Inr (v', j')"
    then have "ts \<noteq> []" using parse_progress_eml(1) by fastforce
    moreover from parse_extend_eml(1)[OF p] n
    have "parse_expr_eml (factor_predicate_eml lib subject from_addrs to_addrs cc_addrs mail_dt) (ts @ rest) 0 = Inr (v', j')"
      by simp
    ultimately show "parse_and_eval_eml lib rule subject from_addrs to_addrs cc_addrs mail_dt = Inr v'"
      using assms(1) by (simp add: parse_and_eval_eml_def)
  }
qed

theorem trailing_tokens_ignored_witness:
  "tokenize ''SUBJECT:/a/ )'' = [''SUBJECT:/a/''] @ ['')'']
   \<and> parse_expr (factor_predicate example_lib ''a'' [] [] [] None) [''SUBJECT:/a/''] 0 = Inr (True, 1)
   \<and> parse_expr_eml (factor_predicate_eml example_lib ''a'' [] [] [] None) [''SUBJECT:/a/''] 0 = Inr (True, 1)
   \<and> parse_and_eval example_lib ''SUBJECT:/a/ )'' ''a'' [] [] [] None = Inr True
   \<and> parse_and_eval_eml example_lib ''SUBJECT:/a/ )'' ''a'' [] [] [] None = Inr True"
proof -
  have t: "tokenize ''SUBJECT:/a/ )'' = [''SUBJECT:/a/''] @ ['')'']" by code_simp
  have r: "['')''] = [] \<or> (hd ['')''] \<noteq> ''AND'' \<and> hd ['')''] \<noteq> ''OR'')" by simp
  have p: "parse_expr (factor_predicate example_lib ''a'' [] [] [] None) [''SUBJECT:/a/''] 0 = Inr (True, 1)"
    by code_simp
  have q: "parse_expr_eml (factor_predicate_eml example_lib ''a'' [] [] [] None) [''SUBJECT:/a/''] 0 = Inr (True, 1)"
    by code_simp
  from trailing_tokens_ignored[OF t r, of example_lib "''a''" "[]" "[]" "[]" None True 1 True 1] p q t
  show ?thesis by simp
qed

lemma lowercase_operator_ignored:
  "parse_and_eval example_lib ''SUBJECT:/a/ and SUBJECT:/b/'' ''a'' [] [] [] None = Inr True
   \<and> parse_and_eval_eml example_lib ''SUBJECT:/a/ and SUBJECT:/b/'' ''a'' [] [] [] None = Inr True"
  by code_simp

lemma second_predicate_ignored:
  "parse_and_eval example_lib ''SUBJECT:/a/ SUBJECT:/b/'' ''a'' [] [] [] None = Inr True
   \<and> parse_and_eval_eml example_lib ''SUBJECT:/a/ SUBJECT:/b/'' ''a'' [] [] [] None = Inr True"
  by code_simp

end
